theory Spec2Isabelle
  imports Main "HOL-Library.Char_ord" "HOL-Library.List_Lexorder" "HOL-Library.Multiset"
begin

section \<open>Strings as byte sequences\<close>

text \<open>
  A Go string is a sequence of bytes; \<^typ>\<open>string\<close> is a list of 8-bit characters, so
  \<^const>\<open>length\<close> is Go's \<^verbatim>\<open>len\<close> and \<^const>\<open>of_char\<close> reads a byte.
\<close>

definition byte :: "char \<Rightarrow> nat" where
  "byte c = of_char c"

text \<open>\<^verbatim>\<open>strings.HasPrefix\<close>.\<close>

fun HasPrefix :: "string \<Rightarrow> string \<Rightarrow> bool" where
  "HasPrefix s [] = True"
| "HasPrefix [] (p # ps) = False"
| "HasPrefix (c # cs) (p # ps) = (c = p \<and> HasPrefix cs ps)"

subsection \<open>Decoding one UTF-8 rune\<close>

text \<open>
  The width that \<^verbatim>\<open>utf8.DecodeRuneInString\<close> reports for the rune at the head of a
  string: 0 for the empty string, 1 for an ASCII byte and for every byte that does not
  start a well-formed encoding (the rune is then U+FFFD), otherwise the length of the
  encoding. The cases are those of the library's \<^verbatim>\<open>first\<close> and
  \<^verbatim>\<open>acceptRanges\<close> tables.
\<close>

definition contb :: "char \<Rightarrow> bool" where
  "contb c = (128 \<le> byte c \<and> byte c \<le> 191)"

fun rune_width :: "string \<Rightarrow> nat" where
  "rune_width [] = 0"
| "rune_width (c # cs) =
     (let b = byte c in
      if b < 194 \<or> 244 < b then 1
      else if b < 224 then
        (case cs of c1 # _ \<Rightarrow> if contb c1 then 2 else 1 | _ \<Rightarrow> 1)
      else if b < 240 then
        (case cs of c1 # c2 # _ \<Rightarrow>
           if (if b = 224 then 160 \<le> byte c1 \<and> byte c1 \<le> 191
               else if b = 237 then 128 \<le> byte c1 \<and> byte c1 \<le> 159
               else contb c1) \<and> contb c2
           then 3 else 1
         | _ \<Rightarrow> 1)
      else
        (case cs of c1 # c2 # c3 # _ \<Rightarrow>
           if (if b = 240 then 144 \<le> byte c1 \<and> byte c1 \<le> 191
               else if b = 244 then 128 \<le> byte c1 \<and> byte c1 \<le> 143
               else contb c1) \<and> contb c2 \<and> contb c3
           then 4 else 1
         | _ \<Rightarrow> 1))"

section \<open>Resource names: TfSanitize\<close>

definition safeChars :: string where
  "safeChars = ''abcdefghijklmnopqrstuvwxyzABCDEFGHIJKLMNOPQRSTUVWXYZ0123456789-_''"

text \<open>
  The character class of \<^verbatim>\<open>unsafeChars\<close> is the complement of
  \<^verbatim>\<open>[0-9A-Za-z_\-]\<close>; \<open>in_safe_class\<close> is the class itself, on a byte (every
  rune of the class is a single byte).
\<close>

definition in_safe_class :: "char \<Rightarrow> bool" where
  "in_safe_class c =
     (let b = byte c in
      (48 \<le> b \<and> b \<le> 57) \<or> (65 \<le> b \<and> b \<le> 90) \<or> (97 \<le> b \<and> b \<le> 122) \<or> b = 95 \<or> b = 45)"

definition udigits :: string where
  "udigits = ''0123456789ABCDEF''"

definition hex_byte :: "char \<Rightarrow> string" where
  "hex_byte c = [udigits ! (byte c div 16), udigits ! (byte c mod 16)]"

text \<open>
  \<^verbatim>\<open>fmt.Sprintf("-%04X-", s)\<close> on a string: two upper-case hexadecimal digits for
  each byte, padded on the left with zeros to four digits.
\<close>

definition escapeRune :: "string \<Rightarrow> string" where
  "escapeRune s =
     (let hex = concat (map hex_byte s)
      in ''-'' @ replicate (4 - length hex) CHR ''0'' @ hex @ ''-'')"

text \<open>
  \<^verbatim>\<open>unsafeChars.ReplaceAllStringFunc(name, escapeRune)\<close>: the text is read rune by
  rune; a rune of the safe class is copied, any other rune (a malformed byte included) is
  replaced by the escape of its bytes.
\<close>

fun replace_unsafe :: "string \<Rightarrow> string" where
  "replace_unsafe [] = []"
| "replace_unsafe (c # cs) =
     (if in_safe_class c then c # replace_unsafe cs
      else escapeRune (c # take (rune_width (c # cs) - 1) cs)
             @ replace_unsafe (drop (rune_width (c # cs) - 1) cs))"

definition TfSanitize :: "string \<Rightarrow> string" where
  "TfSanitize name = ''tfer--'' @ replace_unsafe name"

section \<open>Resource items and block schemas\<close>

text \<open>
  A resource item is a Go \<^verbatim>\<open>map[string]interface{}\<close>. Its values are modelled by
  their dynamic type, since the zero test of the pruner is by dynamic type. A map is an
  association list read with \<^const>\<open>map_of\<close>; a slice and a map can be \<^verbatim>\<open>nil\<close>
  (\<open>VNilSlice\<close>, \<open>VNilMap\<close>), which Go tells apart from an empty one. \<open>VOther z\<close> is a
  value of any other dynamic type (a float, a typed slice, ...); \<open>z\<close> tells whether it is
  deeply equal to the zero value of that type.
\<close>

datatype tf_value =
    VNil
  | VString string
  | VBool bool
  | VInt int
  | VSlice "tf_value list"
  | VNilSlice
  | VMap "(string \<times> tf_value) list"
  | VNilMap
  | VOther bool

type_synonym item = "(string \<times> tf_value) list"

text \<open>\<^verbatim>\<open>configschema.Attribute\<close> and \<^verbatim>\<open>configschema.Block\<close> (a nested block embeds a block).\<close>

record attribute =
  Required :: bool
  Optional :: bool
  Computed :: bool

datatype block = Block (Attributes: "(string \<times> attribute) list") (BlockTypes: "(string \<times> block) list")

text \<open>
  \<^verbatim>\<open>value == nil || reflect.DeepEqual(value, reflect.Zero(reflect.TypeOf(value)).Interface())\<close>.
  The zero value of a slice or map type is \<^verbatim>\<open>nil\<close>, and \<^verbatim>\<open>DeepEqual\<close> never
  equates a nil slice or map with a non-nil one.
\<close>

fun isZero :: "tf_value \<Rightarrow> bool" where
  "isZero VNil = True"
| "isZero (VString s) = (s = [])"
| "isZero (VBool b) = (\<not> b)"
| "isZero (VInt n) = (n = 0)"
| "isZero (VSlice xs) = False"
| "isZero VNilSlice = True"
| "isZero (VMap m) = False"
| "isZero VNilMap = True"
| "isZero (VOther z) = z"

text \<open>The test that deletes a key: the schema has it as an optional attribute and its value is zero.\<close>

definition optional_zero :: "block \<Rightarrow> string \<Rightarrow> tf_value \<Rightarrow> bool" where
  "optional_zero bs k v =
     (case map_of (Attributes bs) k of
        Some a \<Rightarrow> Optional a \<and> isZero v
      | None \<Rightarrow> False)"

section \<open>Pruning: cleanOptionalEmptyAttributes\<close>

text \<open>
  The loop over the entries of \<open>data\<close>, deleting as it goes, and the loop over the items
  of a list found under a block-type key. Deleting from a Go map while ranging over it is
  defined: every entry that remains is visited once.
\<close>

fun cleanOptionalEmptyAttributes :: "item \<Rightarrow> block \<Rightarrow> item"
  and clean_block_list :: "tf_value list \<Rightarrow> block \<Rightarrow> tf_value list" where
  "cleanOptionalEmptyAttributes [] bs = []"
| "cleanOptionalEmptyAttributes ((k, v) # rest) bs =
     (if optional_zero bs k v then cleanOptionalEmptyAttributes rest bs
      else
        (k, (case map_of (BlockTypes bs) k of
               Some nb \<Rightarrow>
                 (case v of
                    VSlice xs \<Rightarrow> VSlice (clean_block_list xs nb)
                  | _ \<Rightarrow> v)
             | None \<Rightarrow> v))
        # cleanOptionalEmptyAttributes rest bs)"
| "clean_block_list [] nb = []"
| "clean_block_list (x # xs) nb =
     (case x of
        VMap m \<Rightarrow> VMap (cleanOptionalEmptyAttributes m nb)
      | _ \<Rightarrow> x)
     # clean_block_list xs nb"

text \<open>\<^verbatim>\<open>delete(m, key)\<close> on an association list.\<close>

definition delete_key :: "string \<Rightarrow> item \<Rightarrow> item" where
  "delete_key k m = filter (\<lambda>e. fst e \<noteq> k) m"

text \<open>
  \<^verbatim>\<open>CleanUpOptionalEmptyAttributes\<close> on the item of a resource (\<open>None\<close> is the nil map)
  and the schema (\<open>None\<close> is the nil pointer); it returns the item as it leaves it.
\<close>

definition CleanUpOptionalEmptyAttributes :: "item option \<Rightarrow> block option \<Rightarrow> item option" where
  "CleanUpOptionalEmptyAttributes it resourceSchema =
     (case (it, resourceSchema) of
        (Some d, Some bs) \<Rightarrow>
          (let d1 = (case map_of (Attributes bs) ''project'' of
                       Some projectSchema \<Rightarrow>
                         if Computed projectSchema then delete_key ''project'' d else d
                     | None \<Rightarrow> d)
           in Some (cleanOptionalEmptyAttributes d1 bs))
      | _ \<Rightarrow> it)"

text \<open>
  The body of a nested block: from \<open>data\<close> with schema \<open>bs\<close>, follow each step
  \<open>(k, i)\<close> to item \<open>i\<close> of the list under the block-type key \<open>k\<close>. These are the levels
  that the recursion of the pruner reaches.
\<close>

fun sub_body :: "block \<Rightarrow> item \<Rightarrow> (string \<times> nat) list \<Rightarrow> (block \<times> item) option" where
  "sub_body bs d [] = Some (bs, d)"
| "sub_body bs d ((k, i) # p) =
     (case map_of (BlockTypes bs) k of
        None \<Rightarrow> None
      | Some nb \<Rightarrow>
          (case map_of d k of
             Some (VSlice xs) \<Rightarrow>
               (if i < length xs then
                  (case xs ! i of VMap m \<Rightarrow> sub_body nb m p | _ \<Rightarrow> None)
                else None)
           | _ \<Rightarrow> None))"

text \<open>What pruning leaves of the value of a key that it keeps.\<close>

definition descend :: "block \<Rightarrow> string \<Rightarrow> tf_value \<Rightarrow> tf_value" where
  "descend bs k v =
     (case map_of (BlockTypes bs) k of
        Some nb \<Rightarrow> (case v of VSlice xs \<Rightarrow> VSlice (clean_block_list xs nb) | _ \<Rightarrow> v)
      | None \<Rightarrow> v)"

section \<open>Resources and ConvertTFstate\<close>

text \<open>
  A returned \<^verbatim>\<open>error\<close> value and a run-time panic are both results of the model;
  the text of an error is kept.
\<close>

datatype error = Err string | Panic string

text \<open>
  The fields of \<^verbatim>\<open>Resource\<close> that the functions below read. \<open>InstanceInfo_Type\<close>
  is \<^verbatim>\<open>InstanceInfo.Type\<close>, \<open>InstanceState_Attributes\<close> the flat attribute bag; a Go
  map that is only ranged over is a list in the order of the iteration.
\<close>

record Resource =
  InstanceInfo_Type :: string
  InstanceState_Attributes :: "(string \<times> string) list"
  ResourceName :: string
  Provider :: string
  Item :: "item option"
  PreserveOrder :: "string list"
  IgnoreKeys :: "string list"
  AllowEmptyValues :: "string list"
  AdditionalFields :: item

text \<open>
  What \<^verbatim>\<open>ConvertTFstate\<close> calls outside this file: \<open>compiles p\<close> tells whether
  \<^verbatim>\<open>regexp.MustCompile(p)\<close> returns (it panics otherwise), and
  \<open>flatmap_parse attributes ignoreKeys allowEmptyValues schema\<close> is
  \<^verbatim>\<open>NewFlatmapParser(attributes, ignoreKeys, allowEmptyValues).Parse(impliedType)\<close>
  for the implied type of the schema block; its result can be the nil map.
\<close>

record flatmap_env =
  compiles :: "string \<Rightarrow> bool"
  flatmap_parse ::
    "(string \<times> string) list \<Rightarrow> string list \<Rightarrow> string list \<Rightarrow> block option \<Rightarrow> error + item option"

text \<open>\<^verbatim>\<open>m[key] = value\<close> on an association list, for any key and value type.\<close>

fun assign :: "'k \<Rightarrow> 'v \<Rightarrow> ('k \<times> 'v) list \<Rightarrow> ('k \<times> 'v) list" where
  "assign k v [] = [(k, v)]"
| "assign k v ((k', v') # m) = (if k' = k then (k, v) # m else (k', v') # assign k v m)"

text \<open>
  \<^verbatim>\<open>ParseTFstate\<close>, given the result of the parser: the additional fields are stored
  into the parsed attributes (storing into a nil map panics), and a nil result with no
  additional field becomes the empty map.
\<close>

definition ParseTFstate :: "error + item option \<Rightarrow> Resource \<Rightarrow> error + Resource" where
  "ParseTFstate parsed r =
     (case parsed of
        Inl err \<Rightarrow> Inl err
      | Inr attributes \<Rightarrow>
          (case attributes of
             None \<Rightarrow>
               if AdditionalFields r \<noteq> [] then Inl (Panic ''assignment to entry in nil map'')
               else Inr (r\<lparr>Item := Some []\<rparr>)
           | Some m \<Rightarrow>
               Inr (r\<lparr>Item := Some (fold (\<lambda>e. assign (fst e) (snd e)) (AdditionalFields r) m)\<rparr>)))"

text \<open>
  \<^verbatim>\<open>ConvertTFstate\<close>; \<open>resourceSchema\<close> is the block that the provider's schema has
  for the type of the resource (\<open>None\<close>: the nil pointer). The patterns are compiled, the
  empty pattern among \<^verbatim>\<open>AllowEmptyValues\<close> is skipped, the bag is parsed, and the item
  is pruned by the schema.
\<close>

definition ConvertTFstate :: "flatmap_env \<Rightarrow> block option \<Rightarrow> Resource \<Rightarrow> error + Resource" where
  "ConvertTFstate env resourceSchema r =
     (let ignoreKeys = IgnoreKeys r;
          allowEmptyValues = filter (\<lambda>pattern. pattern \<noteq> []) (AllowEmptyValues r)
      in
      if \<not> list_all (compiles env) ignoreKeys \<or> \<not> list_all (compiles env) allowEmptyValues
      then Inl (Panic ''regexp: Compile'')
      else
        (case ParseTFstate
                (flatmap_parse env (InstanceState_Attributes r) ignoreKeys allowEmptyValues resourceSchema) r of
           Inl err \<Rightarrow> Inl err
         | Inr r1 \<Rightarrow> Inr (r1\<lparr>Item := CleanUpOptionalEmptyAttributes (Item r1) resourceSchema\<rparr>)))"

text \<open>
  Modelled from the spec: the flatmap parser (\<^verbatim>\<open>NewFlatmapParser\<close>, not among the
  sources) on a bag of scalar attributes, where the decoder of the specification yields
  one string node for every key of the bag, an explicit empty string included. It keeps
  every attribute, so it never drops one that \<^verbatim>\<open>AllowEmptyValues\<close> names.
\<close>

definition decode_scalars ::
  "(string \<times> string) list \<Rightarrow> string list \<Rightarrow> string list \<Rightarrow> block option \<Rightarrow> error + item option" where
  "decode_scalars bag ignoreKeys allowEmptyValues schema =
     Inr (Some (map (\<lambda>e. (fst e, VString (snd e))) bag))"

definition scalar_env :: flatmap_env where
  "scalar_env = \<lparr>compiles = (\<lambda>p. True), flatmap_parse = decode_scalars\<rparr>"

section \<open>String functions of the Go library\<close>

text \<open>
  \<^verbatim>\<open>strings.Split(s, sep)\<close> for a non-empty separator: the pieces between the
  occurrences of \<open>sep\<close>, found from the left without overlap; \<open>cur\<close> is the piece being
  read. The result is never empty.
\<close>

fun split_from :: "string \<Rightarrow> string \<Rightarrow> string \<Rightarrow> string list" where
  "split_from sep cur [] = [cur]"
| "split_from sep cur (c # cs) =
     (if sep \<noteq> [] \<and> HasPrefix (c # cs) sep
      then cur # split_from sep [] (drop (length sep - 1) cs)
      else split_from sep (cur @ [c]) cs)"

definition Split :: "string \<Rightarrow> string \<Rightarrow> string list" where
  "Split s sep = split_from sep [] s"

text \<open>\<^verbatim>\<open>strings.Join(elems, sep)\<close>.\<close>

fun Join :: "string list \<Rightarrow> string \<Rightarrow> string" where
  "Join [] sep = []"
| "Join [x] sep = x"
| "Join (x # y # ys) sep = x @ sep @ Join (y # ys) sep"

text \<open>\<^verbatim>\<open>strings.ReplaceAll(s, old, new)\<close> for a non-empty \<open>old\<close>.\<close>

fun ReplaceAll :: "string \<Rightarrow> string \<Rightarrow> string \<Rightarrow> string" where
  "ReplaceAll [] old new = []"
| "ReplaceAll (c # cs) old new =
     (if old \<noteq> [] \<and> HasPrefix (c # cs) old
      then new @ ReplaceAll (drop (length old - 1) cs) old new
      else c # ReplaceAll cs old new)"

text \<open>\<^verbatim>\<open>strings.Contains\<close>, \<^verbatim>\<open>strings.HasSuffix\<close>, \<^verbatim>\<open>strings.TrimPrefix\<close>, \<^verbatim>\<open>strings.TrimSuffix\<close>.\<close>

fun Contains :: "string \<Rightarrow> string \<Rightarrow> bool" where
  "Contains [] sub = (sub = [])"
| "Contains (c # cs) sub = (HasPrefix (c # cs) sub \<or> Contains cs sub)"

definition HasSuffix :: "string \<Rightarrow> string \<Rightarrow> bool" where
  "HasSuffix s suffix = HasPrefix (rev s) (rev suffix)"

definition TrimPrefix :: "string \<Rightarrow> string \<Rightarrow> string" where
  "TrimPrefix s p = (if HasPrefix s p then drop (length p) s else s)"

definition TrimSuffix :: "string \<Rightarrow> string \<Rightarrow> string" where
  "TrimSuffix s suffix = (if HasSuffix s suffix then take (length s - length suffix) s else s)"

text \<open>\<^verbatim>\<open>strings.Trim(s, " ")\<close>: the cutset is the space alone.\<close>

definition Trim_spaces :: "string \<Rightarrow> string" where
  "Trim_spaces s = rev (dropWhile (\<lambda>c. c = CHR '' '') (rev (dropWhile (\<lambda>c. c = CHR '' '') s)))"

text \<open>
  \<^verbatim>\<open>strings.TrimSpace\<close> removes Unicode white space at both ends: the ASCII
  characters tab, line feed, vertical tab, form feed, carriage return and space, and the
  UTF-8 encodings of U+0085, U+00A0, U+1680, U+2000 to U+200A, U+2028, U+2029, U+202F,
  U+205F and U+3000.
\<close>

definition ascii_space :: "char \<Rightarrow> bool" where
  "ascii_space c = (byte c = 32 \<or> (9 \<le> byte c \<and> byte c \<le> 13))"

definition unicode_spaces :: "string list" where
  "unicode_spaces =
     [[CHR 0xC2, CHR 0x85], [CHR 0xC2, CHR 0xA0], [CHR 0xE1, CHR 0x9A, CHR 0x80],
      [CHR 0xE2, CHR 0x80, CHR 0xA8], [CHR 0xE2, CHR 0x80, CHR 0xA9],
      [CHR 0xE2, CHR 0x80, CHR 0xAF], [CHR 0xE2, CHR 0x81, CHR 0x9F],
      [CHR 0xE3, CHR 0x80, CHR 0x80]]
     @ map (\<lambda>n. [CHR 0xE2, CHR 0x80, char_of (128 + n)]) [0..<11]"

text \<open>The number of bytes of the white-space rune at the head of a string, 0 if there is none.\<close>

definition space_width :: "string \<Rightarrow> nat" where
  "space_width s =
     (case s of
        [] \<Rightarrow> 0
      | c # _ \<Rightarrow>
          if ascii_space c then 1
          else (case filter (HasPrefix s) unicode_spaces of [] \<Rightarrow> 0 | u # _ \<Rightarrow> length u))"

definition space_width_end :: "string \<Rightarrow> nat" where
  "space_width_end s =
     (case rev s of
        [] \<Rightarrow> 0
      | c # _ \<Rightarrow>
          if ascii_space c then 1
          else (case filter (HasSuffix s) unicode_spaces of [] \<Rightarrow> 0 | u # _ \<Rightarrow> length u))"

function trim_left :: "string \<Rightarrow> string" where
  "trim_left s = (if space_width s = 0 then s else trim_left (drop (space_width s) s))"
  by pat_completeness auto
termination
proof (relation "measure length")
  show "wf (measure length)" by simp
next
  fix s :: string
  assume "space_width s \<noteq> 0"
  then have "s \<noteq> []" by (auto simp: space_width_def)
  with \<open>space_width s \<noteq> 0\<close> show "(drop (space_width s) s, s) \<in> measure length" by simp
qed

function trim_right :: "string \<Rightarrow> string" where
  "trim_right s =
     (if space_width_end s = 0 then s else trim_right (take (length s - space_width_end s) s))"
  by pat_completeness auto
termination
proof (relation "measure length")
  show "wf (measure length)" by simp
next
  fix s :: string
  assume "space_width_end s \<noteq> 0"
  then have "s \<noteq> []" by (auto simp: space_width_end_def)
  with \<open>space_width_end s \<noteq> 0\<close>
  show "(take (length s - space_width_end s) s, s) \<in> measure length" by simp
qed

definition TrimSpace :: "string \<Rightarrow> string" where
  "TrimSpace s = trim_right (trim_left s)"

text \<open>The classes \<^verbatim>\<open>\s\<close>, \<^verbatim>\<open>\w\<close> and \<^verbatim>\<open>[0-9]\<close> of the regular expressions.\<close>

definition re_space :: "char \<Rightarrow> bool" where
  "re_space c = (byte c = 9 \<or> byte c = 10 \<or> byte c = 12 \<or> byte c = 13 \<or> byte c = 32)"

definition re_digit :: "char \<Rightarrow> bool" where
  "re_digit c = (48 \<le> byte c \<and> byte c \<le> 57)"

definition re_word :: "char \<Rightarrow> bool" where
  "re_word c =
     (re_digit c \<or> (65 \<le> byte c \<and> byte c \<le> 90) \<or> (97 \<le> byte c \<and> byte c \<le> 122) \<or> byte c = 95)"

section \<open>The line passes: terraform12Adjustments and terraform13Adjustments\<close>

definition dquote :: char where
  "dquote = CHR 0x22"

definition newline :: string where
  "newline = [CHR 0x0A]"

definition tab :: string where
  "tab = [CHR 0x09]"

text \<open>
  \<^verbatim>\<open>singletonListFix\<close> is \<^verbatim>\<open>^\s*\w+ = {\<close> and \<^verbatim>\<open>singletonListFixEnd\<close> is
  \<^verbatim>\<open>^\s*}\<close>. A white-space character is neither a word character nor a brace, and a
  word character is not a space, so both repetitions take all they can.
\<close>

definition singletonListFix :: "string \<Rightarrow> bool" where
  "singletonListFix line =
     (let r = dropWhile re_space line
      in takeWhile re_word r \<noteq> [] \<and> HasPrefix (dropWhile re_word r) '' = {'')"

definition singletonListFixEnd :: "string \<Rightarrow> bool" where
  "singletonListFixEnd line =
     (case dropWhile re_space line of [] \<Rightarrow> False | c # _ \<Rightarrow> c = CHR ''}'')"

text \<open>\<^verbatim>\<open>strings.Trim(strings.Split(line, " = {")[0], " ")\<close>.\<close>

definition line_key :: "string \<Rightarrow> string" where
  "line_key line = Trim_spaces (Split line '' = {'' ! 0)"

text \<open>
  The loop of \<^verbatim>\<open>terraform12Adjustments\<close> over the lines, with the stack \<open>prefix\<close> of
  the keys of the open blocks; it returns the lines as the loop leaves them.
\<close>

fun t12_loop :: "string set \<Rightarrow> string list \<Rightarrow> string list \<Rightarrow> string list" where
  "t12_loop mapsObjects prefix [] = []"
| "t12_loop mapsObjects prefix (line # rest) =
     (if singletonListFixEnd line \<and> prefix \<noteq> [] then
        line # t12_loop mapsObjects (butlast prefix) rest
      else if \<not> singletonListFix line then
        line # t12_loop mapsObjects prefix rest
      else if Join (prefix @ [line_key line]) ''.'' \<in> mapsObjects then
        line # t12_loop mapsObjects (prefix @ [line_key line]) rest
      else
        ReplaceAll line '' = {'' '' {'' # t12_loop mapsObjects (prefix @ [line_key line]) rest)"

definition terraform12Adjustments :: "string \<Rightarrow> string set \<Rightarrow> string" where
  "terraform12Adjustments formatted mapsObjects =
     Join (t12_loop mapsObjects [] (Split formatted newline)) newline"

text \<open>
  The stack of keys after a run of lines, by itself: a closing-brace line pops the stack
  when it is not empty, a line \<^verbatim>\<open><key> = {\<close> pushes its key.
\<close>

fun prefix_after :: "string list \<Rightarrow> string list \<Rightarrow> string list" where
  "prefix_after prefix [] = prefix"
| "prefix_after prefix (line # rest) =
     prefix_after
       (if singletonListFixEnd line \<and> prefix \<noteq> [] then butlast prefix
        else if singletonListFix line then prefix @ [line_key line]
        else prefix)
       rest"

text \<open>
  \<^verbatim>\<open>requiredProvidersRe\<close> is \<^verbatim>\<open>required_providers ".*" {\<close>, found anywhere in the
  line; the dot stands for any character but a line feed.
\<close>

definition rp_open :: string where
  "rp_open = ''required_providers '' @ [dquote]"

definition rp_close :: string where
  "rp_close = dquote # '' {''"

fun rp_tail :: "string \<Rightarrow> bool" where
  "rp_tail [] = False"
| "rp_tail (c # cs) = (HasPrefix (c # cs) rp_close \<or> (c \<noteq> CHR 0x0A \<and> rp_tail cs))"

fun requiredProvidersRe :: "string \<Rightarrow> bool" where
  "requiredProvidersRe [] = False"
| "requiredProvidersRe (c # cs) =
     ((HasPrefix (c # cs) rp_open \<and> rp_tail (drop (length rp_open) (c # cs)))
      \<or> requiredProvidersRe cs)"

text \<open>
  The body of \<^verbatim>\<open>terraform13Adjustments\<close> at the first line \<open>line\<close> that matches, with
  \<open>pre\<close> the lines before it and \<open>rest\<close> the lines after it. \<^verbatim>\<open>parts[1]\<close> and
  \<^verbatim>\<open>lines[inner]\<close> are reads by index: out of range they panic. The store to
  \<^verbatim>\<open>lines[i+1]\<close> happens before \<^verbatim>\<open>lines[inner:]\<close> is read, so when the closing
  brace is the very next line the store is seen in the tail that is appended.
\<close>

definition restructure :: "string list \<Rightarrow> string \<Rightarrow> string list \<Rightarrow> error + string list" where
  "restructure pre line rest =
     (let parts = Split (TrimSpace line) '' '' in
      if length parts < 2 then Inl (Panic ''index out of range'')
      else
        let provider = ReplaceAll (parts ! 1) [dquote] [];
            innerBlock = map (\<lambda>l. tab @ l) (takeWhile (\<lambda>l. \<not> singletonListFixEnd l) rest);
            tail = dropWhile (\<lambda>l. \<not> singletonListFixEnd l) rest
        in
        if tail = [] then Inl (Panic ''index out of range'')
        else
          let block = tab @ tab @ provider @ '' = {'' @ newline @ Join innerBlock newline
                        @ newline @ tab @ tab @ ''}''
          in Inr (pre @ [tab @ ''required_providers {'', block]
                    @ (if innerBlock = [] then block # tl tail else tail)))"

fun t13_loop :: "string list \<Rightarrow> string list \<Rightarrow> error + string list" where
  "t13_loop pre [] = Inr pre"
| "t13_loop pre (line # rest) =
     (if requiredProvidersRe line then restructure pre line rest
      else t13_loop (pre @ [line]) rest)"

definition terraform13Adjustments :: "string \<Rightarrow> error + string" where
  "terraform13Adjustments formatted =
     (case t13_loop [] (Split formatted newline) of
        Inl e \<Rightarrow> Inl e
      | Inr lines \<Rightarrow> Inr (Join lines newline))"

section \<open>Assembling the document: the loop of HclPrintResource\<close>

text \<open>\<^verbatim>\<open>indexRe.ReplaceAllString(key, "")\<close> for \<^verbatim>\<open>indexRe = \.[0-9]+\<close>.\<close>

fun strip_index :: "string \<Rightarrow> string" where
  "strip_index [] = []"
| "strip_index (c # cs) =
     (if c = CHR ''.'' \<and> takeWhile re_digit cs \<noteq> []
      then strip_index (drop (length (takeWhile re_digit cs)) cs)
      else c # strip_index cs)"

text \<open>
  The maps that the loop fills. \<open>resourcesByType\<close> maps a type to the map from names to
  items, \<open>mapsObjects\<close> is the set of map-shaped paths, \<open>hintsByResource\<close> maps type and
  name to the ordering hints, and \<open>warnings\<close> are the lines written to the log.
\<close>

record assembly =
  resourcesByType :: "(string \<times> (string \<times> item option) list) list"
  mapsObjects :: "string set"
  hintsByResource :: "(string \<times> (string \<times> string list) list) list"
  warnings :: "string list"

definition empty_assembly :: assembly where
  "empty_assembly = \<lparr>resourcesByType = [], mapsObjects = {}, hintsByResource = [], warnings = []\<rparr>"

text \<open>A read of a map of maps; a missing outer key reads as the nil map, which has no entry.\<close>

definition lookup2 :: "('a \<times> ('b \<times> 'v) list) list \<Rightarrow> 'a \<Rightarrow> 'b \<Rightarrow> 'v option" where
  "lookup2 m a b = (case map_of m a of None \<Rightarrow> None | Some r \<Rightarrow> map_of r b)"

text \<open>The paths that the attribute bag of a resource registers as maps.\<close>

definition map_paths :: "(string \<times> string) list \<Rightarrow> string set" where
  "map_paths attributes =
     set (map (\<lambda>e. strip_index (TrimSuffix (fst e) ''.%''))
            (filter (\<lambda>e. HasSuffix (fst e) ''.%'') attributes))"

text \<open>
  One iteration of the loop. The stored item is an interface value holding a map, which
  is not nil even when the map is, so \<^verbatim>\<open>r[res.ResourceName] != nil\<close> holds exactly
  when the name has an entry.
\<close>

definition assemble_step :: "assembly \<Rightarrow> Resource \<Rightarrow> assembly" where
  "assemble_step st res =
     (let ty = InstanceInfo_Type res;
          r = (case map_of (resourcesByType st) ty of None \<Rightarrow> [] | Some r \<Rightarrow> r);
          st1 = (case map_of (resourcesByType st) ty of
                   None \<Rightarrow> st\<lparr>resourcesByType := assign ty [] (resourcesByType st)\<rparr>
                 | Some _ \<Rightarrow> st)
      in
      if map_of r (ResourceName res) \<noteq> None then
        st1\<lparr>warnings := warnings st1
               @ [''[ERR]: duplicate resource found: '' @ ty @ ''.'' @ ResourceName res]\<rparr>
      else
        let st2 = st1\<lparr>resourcesByType :=
                         assign ty (assign (ResourceName res) (Item res) r) (resourcesByType st1),
                       mapsObjects := mapsObjects st1 \<union> map_paths (InstanceState_Attributes res)\<rparr>
        in
        if PreserveOrder res \<noteq> [] then
          st2\<lparr>hintsByResource :=
                 assign ty
                   (assign (ResourceName res) (PreserveOrder res)
                      (case map_of (hintsByResource st2) ty of None \<Rightarrow> [] | Some h \<Rightarrow> h))
                   (hintsByResource st2)\<rparr>
        else st2)"

definition assemble :: "Resource list \<Rightarrow> assembly" where
  "assemble resources = foldl assemble_step empty_assembly resources"

text \<open>
  The resources of a list that are not duplicates: those whose type and name no earlier
  resource of the list has.
\<close>

fun first_occurrences :: "(string \<times> string) list \<Rightarrow> Resource list \<Rightarrow> Resource list" where
  "first_occurrences seen [] = []"
| "first_occurrences seen (res # rest) =
     (if (InstanceInfo_Type res, ResourceName res) \<in> set seen
      then first_occurrences seen rest
      else res # first_occurrences ((InstanceInfo_Type res, ResourceName res) # seen) rest)"

text \<open>Notions for reasoning about the loop: the key of a resource, the duplicate test, the
  part of the state that the rendering reads, and the keys stored so far.\<close>

definition res_key :: "Resource \<Rightarrow> string \<times> string" where
  "res_key res = (InstanceInfo_Type res, ResourceName res)"

definition is_dup :: "assembly \<Rightarrow> Resource \<Rightarrow> bool" where
  "is_dup st res = (lookup2 (resourcesByType st) (InstanceInfo_Type res) (ResourceName res) \<noteq> None)"

definition doc :: "assembly \<Rightarrow> (string \<times> (string \<times> item option) list) list \<times> string set \<times> (string \<times> (string \<times> string list) list) list" where
  "doc st = (resourcesByType st, mapsObjects st, hintsByResource st)"

definition keys_of :: "assembly \<Rightarrow> (string \<times> string) set" where
  "keys_of st = {(t, n). lookup2 (resourcesByType st) t n \<noteq> None}"

text \<open>
  Two resources that differ at most in the order in which the attribute bag, a Go map,
  is ranged over.
\<close>

definition same_but_order :: "Resource \<Rightarrow> Resource \<Rightarrow> bool" where
  "same_but_order r r' =
     (r' = r\<lparr>InstanceState_Attributes := InstanceState_Attributes r'\<rparr> \<and>
      set (InstanceState_Attributes r') = set (InstanceState_Attributes r))"

section \<open>The syntax tree and the sanitizer\<close>

text \<open>
  The nodes of \<^verbatim>\<open>hcl/ast\<close> that the sanitizer tells apart. An object type holds an
  object list, an object list holds object items, and a token has a type and a text.
  \<open>OtherNode\<close> is a node of any other kind (the default branch of \<^verbatim>\<open>visit\<close>).
\<close>

datatype token = Token (Type: nat) (Text: string)

datatype node =
    File node
  | ObjectList "object_item list"
  | ObjectType "object_item list"
  | ListType "node list"
  | LiteralType token
  | ObjectKey token
  | ItemNode object_item
  | OtherNode
and object_item = ObjectItem (Keys: "token list") (Assign_Line: nat) (Val: node)

text \<open>
  What the sanitizer and \<^verbatim>\<open>hclPrint\<close> call in other packages and files:
  \<open>Fprint\<close> is \<^verbatim>\<open>hclPrinter.Fprint\<close> (the text written to the buffer, and the error
  if any), \<open>Unquote\<close> is \<^verbatim>\<open>strconv.Unquote\<close> (\<open>None\<close> on an error), \<open>json_indent\<close> is
  \<^verbatim>\<open>json.Unmarshal\<close> into an interface value followed by
  \<^verbatim>\<open>json.MarshalIndent(v, "", "  ")\<close> (\<open>None\<close> when one of the two fails),
  \<open>jsonPrint\<close> is the function of that name of this package, \<open>Parse\<close> is
  \<^verbatim>\<open>hclParser.Parse\<close> and \<open>Format\<close> is \<^verbatim>\<open>hclPrinter.Format\<close>. The type \<open>'d\<close> is
  the data handed to \<^verbatim>\<open>Print\<close>.
\<close>

record 'd hcl_lib =
  Fprint :: "node \<Rightarrow> string \<times> error option"
  Unquote :: "string \<Rightarrow> string option"
  json_indent :: "string \<Rightarrow> string option"
  jsonPrint :: "'d \<Rightarrow> error + string"
  Parse :: "string \<Rightarrow> error + node"
  Format :: "string \<Rightarrow> error + string"

text \<open>The fields of \<^verbatim>\<open>astSanitizer\<close> that do not change during a visit.\<close>

record sanitizer =
  sort_flag :: bool
  hints :: "(string \<times> (string \<times> string list) list) list"

text \<open>
  \<^verbatim>\<open>sortHclTree\<close>: the elements are ordered by the text that the printer writes for
  them, compared as byte strings. \<^verbatim>\<open>sort.Slice\<close> does not say in which order it
  leaves elements of equal text; this model keeps them in their order.
\<close>

definition render :: "'d hcl_lib \<Rightarrow> node \<Rightarrow> string" where
  "render lib n = fst (Fprint lib n)"

definition sortHclTree :: "'d hcl_lib \<Rightarrow> node list \<Rightarrow> node list" where
  "sortHclTree lib t = sort_key (render lib) t"

definition sortHclItems :: "'d hcl_lib \<Rightarrow> object_item list \<Rightarrow> object_item list" where
  "sortHclItems lib t = sort_key (\<lambda>it. render lib (ItemNode it)) t"

text \<open>
  \<^verbatim>\<open>strconv.Atoi\<close> returns no error on an optional sign followed by decimal digits
  whose value fits a 64-bit integer.
\<close>

definition digits_value :: "string \<Rightarrow> nat" where
  "digits_value ds = foldl (\<lambda>a c. 10 * a + (byte c - 48)) 0 ds"

definition atoi_ok :: "string \<Rightarrow> bool" where
  "atoi_ok s =
     (let neg = HasPrefix s ''-'';
          ds = (if HasPrefix s ''-'' \<or> HasPrefix s ''+'' then tl s else s)
      in ds \<noteq> [] \<and> list_all re_digit ds \<and>
         (if neg then digits_value ds \<le> 2 ^ 63 else digits_value ds < 2 ^ 63))"

text \<open>\<^verbatim>\<open>strconv.Itoa\<close> of an index.\<close>

fun itoa_digits :: "nat \<Rightarrow> nat \<Rightarrow> string" where
  "itoa_digits 0 n = []"
| "itoa_digits (Suc fuel) n =
     (if n < 10 then [char_of (48 + n)]
      else itoa_digits fuel (n div 10) @ [char_of (48 + n mod 10)])"

definition Itoa :: "nat \<Rightarrow> string" where
  "Itoa n = itoa_digits (Suc n) n"

text \<open>\<^verbatim>\<open>buildLogicalPath\<close> and \<^verbatim>\<open>isPathOrdered\<close> on the current path.\<close>

definition buildLogicalPath :: "string list \<Rightarrow> string" where
  "buildLogicalPath currentPath =
     Join (if length currentPath > 2 then filter (\<lambda>part. \<not> atoi_ok part) (drop 3 currentPath) else [])
       ''.''"

definition isPathOrdered :: "sanitizer \<Rightarrow> string list \<Rightarrow> string \<Rightarrow> bool" where
  "isPathOrdered v currentPath path =
     (length currentPath > 2 \<and> currentPath ! 0 = ''resource'' \<and>
      (case lookup2 (hints v) (currentPath ! 1) (currentPath ! 2) of
         Some resourceHints \<Rightarrow> path \<in> set resourceHints
       | None \<Rightarrow> False))"

text \<open>
  The search for \<^verbatim>\<open>unorderedKey\<close> in the object-list case: the loop over the hints
  stops at the first hint that is the logical path followed by a dot and a text
  without a dot.
\<close>

fun first_child_hint :: "string \<Rightarrow> string list \<Rightarrow> string" where
  "first_child_hint logicalPath [] = []"
| "first_child_hint logicalPath (hint # resourceHints) =
     (if HasPrefix hint logicalPath \<and> length logicalPath > 0 \<and>
         HasPrefix (TrimPrefix hint logicalPath) ''.'' \<and>
         \<not> Contains (drop 1 (TrimPrefix hint logicalPath)) ''.''
      then TrimPrefix (TrimPrefix hint logicalPath) ''.''
      else first_child_hint logicalPath resourceHints)"

definition unorderedKey :: "sanitizer \<Rightarrow> string list \<Rightarrow> string" where
  "unorderedKey v currentPath =
     (if length currentPath \<ge> 3 \<and> currentPath ! 0 = ''resource'' then
        (case lookup2 (hints v) (currentPath ! 1) (currentPath ! 2) of
           Some resourceHints \<Rightarrow> first_child_hint (buildLogicalPath currentPath) resourceHints
         | None \<Rightarrow> [])
      else [])"

text \<open>The key of an item as the partition reads it; an item without keys makes the read panic.\<close>

definition unquoted :: "'d hcl_lib \<Rightarrow> string \<Rightarrow> string" where
  "unquoted lib text = (case Unquote lib text of Some key \<Rightarrow> key | None \<Rightarrow> text)"

definition item_key :: "'d hcl_lib \<Rightarrow> object_item \<Rightarrow> string" where
  "item_key lib it = unquoted lib (Text (Keys it ! 0))"

definition order_items :: "'d hcl_lib \<Rightarrow> sanitizer \<Rightarrow> string list \<Rightarrow> object_item list \<Rightarrow> error + object_item list" where
  "order_items lib v currentPath items =
     (if \<not> sort_flag v then Inr items
      else if unorderedKey v currentPath \<noteq> [] then
        if \<not> list_all (\<lambda>it. Keys it \<noteq> []) items then Inl (Panic ''index out of range'')
        else Inr (filter (\<lambda>it. item_key lib it = unorderedKey v currentPath) items
                    @ sortHclItems lib (filter (\<lambda>it. item_key lib it \<noteq> unorderedKey v currentPath) items))
      else Inr (sortHclItems lib items))"

text \<open>
  \<^verbatim>\<open>handleHeredoc\<close> on the token of a literal. \<^verbatim>\<open>lines[1:len(lines)-1]\<close> panics
  when there is one line only.
\<close>

definition backslash :: char where
  "backslash = CHR 0x5C"

definition handleHeredoc :: "'d hcl_lib \<Rightarrow> token \<Rightarrow> error + token" where
  "handleHeredoc lib t =
     (if HasPrefix (Text t) (dquote # ''<<'') then
        let text1 = butlast (tl (Text t));
            text2 = ReplaceAll text1 (backslash # ''n'') newline;
            text3 = ReplaceAll text2 (backslash # ''t'') [];
            lines = Split text3 newline
        in
        if length lines < 2 then Inl (Panic ''slice bounds out of range'')
        else
          let jsonTest = ReplaceAll (Join (butlast (tl lines)) newline) [backslash, dquote] [dquote]
          in
          (case json_indent lib jsonTest of
             None \<Rightarrow> Inr (Token 10 text3)
           | Some dataJSON \<Rightarrow>
               Inr (Token 10 (Join ([lines ! 0] @ Split dataJSON newline @ [last lines]) newline)))
      else Inr t)"

text \<open>
  The first loop of \<^verbatim>\<open>visitObjectItem\<close>, on the text of the first key. A character
  of the text is safe when it occurs in \<open>safeChars\<close>; every rune that is not a single
  ASCII byte is unsafe. The slice \<^verbatim>\<open>text[1 : len(text)-1]\<close> panics on a one-byte text.
\<close>

definition fix_key_text :: "string \<Rightarrow> error + string" where
  "fix_key_text text =
     (if text \<noteq> [] \<and> hd text = dquote \<and> last text = dquote then
        if length text < 2 then Inl (Panic ''slice bounds out of range'')
        else
          let v_str = butlast (tl text);
              safe = list_all (\<lambda>c. c \<in> set safeChars) v_str;
              v_str' = (if HasPrefix v_str ''--'' then [dquote] @ v_str @ [dquote] else v_str)
          in Inr (if safe then v_str' else text)
      else Inr text)"

definition fix_keys :: "token list \<Rightarrow> error + token list" where
  "fix_keys ks =
     (case ks of
        [] \<Rightarrow> Inr []
      | k # rest \<Rightarrow>
          (case fix_key_text (Text k) of
             Inl e \<Rightarrow> Inl e
           | Inr text \<Rightarrow> Inr (Token (Type k) text # rest)))"

text \<open>
  \<^verbatim>\<open>visit\<close> and \<^verbatim>\<open>visitObjectItem\<close>. The current path is pushed and popped
  around every recursive call, so it is an argument here; the tree is changed in place in
  the code and returned here.
\<close>

fun visit :: "'d hcl_lib \<Rightarrow> sanitizer \<Rightarrow> string list \<Rightarrow> node \<Rightarrow> error + node"
  and visit_items :: "'d hcl_lib \<Rightarrow> sanitizer \<Rightarrow> string list \<Rightarrow> object_item list \<Rightarrow> error + object_item list"
  and visit_elems :: "'d hcl_lib \<Rightarrow> sanitizer \<Rightarrow> string list \<Rightarrow> nat \<Rightarrow> node list \<Rightarrow> error + node list"
  and visitObjectItem :: "'d hcl_lib \<Rightarrow> sanitizer \<Rightarrow> string list \<Rightarrow> object_item \<Rightarrow> error + object_item"
where
  "visit lib v currentPath (File n) =
     (case visit lib v currentPath n of Inl e \<Rightarrow> Inl e | Inr n' \<Rightarrow> Inr (File n'))"
| "visit lib v currentPath (ObjectList items) =
     (case visit_items lib v currentPath items of
        Inl e \<Rightarrow> Inl e
      | Inr items' \<Rightarrow>
          (case order_items lib v currentPath items' of
             Inl e \<Rightarrow> Inl e
           | Inr items'' \<Rightarrow> Inr (ObjectList items'')))"
| "visit lib v currentPath (ObjectType items) =
     (case visit_items lib v currentPath items of
        Inl e \<Rightarrow> Inl e
      | Inr items' \<Rightarrow>
          (case order_items lib v currentPath items' of
             Inl e \<Rightarrow> Inl e
           | Inr items'' \<Rightarrow> Inr (ObjectType items'')))"
| "visit lib v currentPath (ListType elems) =
     (case visit_elems lib v currentPath 0 elems of
        Inl e \<Rightarrow> Inl e
      | Inr elems' \<Rightarrow>
          Inr (ListType
                 (if sort_flag v \<and> \<not> isPathOrdered v currentPath (buildLogicalPath currentPath)
                  then sortHclTree lib elems' else elems')))"
| "visit lib v currentPath (LiteralType t) =
     (case handleHeredoc lib t of Inl e \<Rightarrow> Inl e | Inr t' \<Rightarrow> Inr (LiteralType t'))"
| "visit lib v currentPath (ObjectKey t) = Inr (ObjectKey t)"
| "visit lib v currentPath (ItemNode it) =
     (case visitObjectItem lib v currentPath it of Inl e \<Rightarrow> Inl e | Inr it' \<Rightarrow> Inr (ItemNode it'))"
| "visit lib v currentPath OtherNode = Inr OtherNode"
| "visit_items lib v currentPath [] = Inr []"
| "visit_items lib v currentPath (it # rest) =
     (case visitObjectItem lib v currentPath it of
        Inl e \<Rightarrow> Inl e
      | Inr it' \<Rightarrow>
          (case visit_items lib v currentPath rest of
             Inl e \<Rightarrow> Inl e
           | Inr rest' \<Rightarrow> Inr (it' # rest')))"
| "visit_elems lib v currentPath i [] = Inr []"
| "visit_elems lib v currentPath i (n # rest) =
     (case visit lib v (currentPath @ [Itoa i]) n of
        Inl e \<Rightarrow> Inl e
      | Inr n' \<Rightarrow>
          (case visit_elems lib v currentPath (Suc i) rest of
             Inl e \<Rightarrow> Inl e
           | Inr rest' \<Rightarrow> Inr (n' # rest')))"
| "visitObjectItem lib v currentPath (ObjectItem ks al val) =
     (case fix_keys ks of
        Inl e \<Rightarrow> Inl e
      | Inr ks' \<Rightarrow>
          (case visit lib v (currentPath @ map (\<lambda>k. unquoted lib (Text k)) ks') val of
             Inl e \<Rightarrow> Inl e
           | Inr val' \<Rightarrow> Inr (ObjectItem ks' 1 val')))"

text \<open>
  The test of the loop over the hints, by itself: the hint is the logical path followed
  by a dot and a text without a dot.
\<close>

definition is_child_hint :: "string \<Rightarrow> string \<Rightarrow> bool" where
  "is_child_hint logicalPath hint =
     (HasPrefix hint logicalPath \<and> HasPrefix (TrimPrefix hint logicalPath) ''.'' \<and>
      \<not> Contains (drop 1 (TrimPrefix hint logicalPath)) ''.'')"

section \<open>Print, hclPrint and HclPrintResource\<close>

text \<open>
  The data that \<^verbatim>\<open>HclPrintResource\<close> hands to \<^verbatim>\<open>Print\<close>: a map with the key
  \<open>resource\<close> when there is a resource and the key \<open>provider\<close> when there is provider
  data.
\<close>

record document =
  doc_resource :: "(string \<times> (string \<times> item option) list) list option"
  doc_provider :: "item option"

definition error_text :: "error \<Rightarrow> string" where
  "error_text e = (case e of Err m \<Rightarrow> m | Panic m \<Rightarrow> m)"

text \<open>
  \<^verbatim>\<open>hclPrint\<close>. The result is the error, or the bytes returned with a nil error. The
  test of \<^verbatim>\<open>err\<close> after the two adjustments reads the nil error left by
  \<^verbatim>\<open>Format\<close>, so its branch is never taken.
\<close>

definition hclPrint ::
  "'d hcl_lib \<Rightarrow> 'd \<Rightarrow> string set \<Rightarrow> bool \<Rightarrow> (string \<times> (string \<times> string list) list) list \<Rightarrow> error + string" where
  "hclPrint lib data mapsObj srt hintsByRes =
     (case jsonPrint lib data of
        Inl err \<Rightarrow> Inl err
      | Inr dataJSON \<Rightarrow>
     (case Parse lib dataJSON of
        Inl err \<Rightarrow> Inl (Err (''error parsing terraform json: '' @ error_text err))
      | Inr nodes \<Rightarrow>
     (case visit lib \<lparr>sort_flag = srt, hints = hintsByRes\<rparr> [] nodes of
        Inl err \<Rightarrow> Inl err
      | Inr nodes' \<Rightarrow>
     (case Fprint lib nodes' of
        (s, Some err) \<Rightarrow> Inl (Err (''error writing HCL: '' @ error_text err))
      | (s, None) \<Rightarrow>
     (case Format lib
             (ReplaceAll (ReplaceAll s (newline @ newline) newline)
                (''}'' @ newline @ ''resource'') (''}'' @ newline @ newline @ ''resource'')) of
        Inl err \<Rightarrow> Inl err
      | Inr formatted \<Rightarrow>
          terraform13Adjustments (terraform12Adjustments formatted mapsObj))))))"

definition Print ::
  "'d hcl_lib \<Rightarrow> 'd \<Rightarrow> string set \<Rightarrow> string \<Rightarrow> bool \<Rightarrow> (string \<times> (string \<times> string list) list) list \<Rightarrow> error + string" where
  "Print lib data mapsObj format srt hintsByRes =
     (if format = ''hcl'' then hclPrint lib data mapsObj srt hintsByRes
      else if format = ''json'' then jsonPrint lib data
      else Inl (Err ''error: unknown output format''))"

definition HclPrintResource ::
  "document hcl_lib \<Rightarrow> Resource list \<Rightarrow> item \<Rightarrow> string \<Rightarrow> bool \<Rightarrow> error + string" where
  "HclPrintResource lib resources providerData output srt =
     (let st = assemble resources;
          data = \<lparr>doc_resource = (if resourcesByType st \<noteq> [] then Some (resourcesByType st) else None),
                  doc_provider = (if providerData \<noteq> [] then Some providerData else None)\<rparr>
      in Print lib data (mapsObjects st) output srt (hintsByResource st))"

section \<open>Example data\<close>

text \<open>A small schema: two attributes, and a block type \<open>rule\<close> with attributes of its own.\<close>

definition opt_attr :: attribute where
  "opt_attr = \<lparr>Required = False, Optional = True, Computed = False\<rparr>"

definition req_attr :: attribute where
  "req_attr = \<lparr>Required = True, Optional = False, Computed = False\<rparr>"

definition comp_attr :: attribute where
  "comp_attr = \<lparr>Required = False, Optional = True, Computed = True\<rparr>"

definition ex_rule_schema :: block where
  "ex_rule_schema = Block [(''note'', opt_attr), (''project'', opt_attr)] []"

definition ex_schema :: block where
  "ex_schema =
     Block [(''description'', opt_attr), (''name'', req_attr), (''project'', comp_attr)]
           [(''rule'', ex_rule_schema)]"

definition ex_rule_body :: item where
  "ex_rule_body = [(''note'', VBool False), (''project'', VString ''p1''), (''x'', VNil)]"

definition ex_item :: item where
  "ex_item =
     [(''description'', VString []), (''name'', VString []), (''project'', VString ''p0''),
      (''rule'', VSlice [VMap ex_rule_body])]"

text \<open>A resource whose \<^verbatim>\<open>AllowEmptyValues\<close> names its empty optional description.\<close>

definition ex_resource :: Resource where
  "ex_resource =
     \<lparr>InstanceInfo_Type = ''google_thing'',
      InstanceState_Attributes = [(''description'', []), (''name'', [])],
      ResourceName = ''tfer--a'',
      Provider = ''google'',
      Item = None,
      PreserveOrder = [],
      IgnoreKeys = [],
      AllowEmptyValues = [''description''],
      AdditionalFields = []\<rparr>"

text \<open>A printed resource with a map \<open>tags\<close> and a block \<open>blk\<close>, and its attribute bag.\<close>

definition ex_formatted :: string where
  "ex_formatted =
     ''resource x {\<newline>  tags = {\<newline>    env = 1\<newline>  }\<newline>  blk = {\<newline>  }\<newline>}''"

definition ex_bag :: "(string \<times> string) list" where
  "ex_bag = [(''tags.%'', ''1''), (''tags.env'', ''prod''), (''blk.0.tags.%'', ''0'')]"

text \<open>A text in which the block of the required providers is never closed.\<close>

definition ex_unclosed :: string where
  "ex_unclosed =
     ''terraform {\<newline>  required_providers '' @ [dquote] @ ''google'' @ [dquote]
       @ '' {\<newline>    version = 1''"

text \<open>
  Stand-ins for the library in the examples. \<open>ex_unquote\<close> is \<^verbatim>\<open>strconv.Unquote\<close> on
  ASCII texts without a backslash that are not in single or back quotes: a text in double
  quotes with no quote or line feed inside is unquoted to its inside, any other text is
  an error. \<open>ex_print\<close> writes an item as its keys, an equals sign when there is one key,
  and its value, as the printer does for items with literal values. \<open>ex_json_indent\<close>
  knows the one JSON text of the heredoc example.
\<close>

definition ex_unquote :: "string \<Rightarrow> string option" where
  "ex_unquote text =
     (if length text \<ge> 2 \<and> hd text = dquote \<and> last text = dquote \<and>
         list_all (\<lambda>c. c \<noteq> dquote \<and> c \<noteq> backslash \<and> c \<noteq> CHR 0x0A) (butlast (tl text))
      then Some (butlast (tl text)) else None)"

fun ex_print :: "node \<Rightarrow> string"
  and ex_print_items :: "object_item list \<Rightarrow> string"
  and ex_print_elems :: "node list \<Rightarrow> string"
  and ex_print_item :: "object_item \<Rightarrow> string"
where
  "ex_print (File n) = ex_print n"
| "ex_print (ObjectList items) = ex_print_items items"
| "ex_print (ObjectType items) = ''{\<newline>'' @ ex_print_items items @ ''}''"
| "ex_print (ListType elems) = ''['' @ ex_print_elems elems @ '']''"
| "ex_print (LiteralType t) = Text t"
| "ex_print (ObjectKey t) = Text t"
| "ex_print (ItemNode it) = ex_print_item it"
| "ex_print OtherNode = []"
| "ex_print_items [] = []"
| "ex_print_items (it # rest) = ex_print_item it @ ''\<newline>'' @ ex_print_items rest"
| "ex_print_elems [] = []"
| "ex_print_elems (n # rest) = ex_print n @ '','' @ ex_print_elems rest"
| "ex_print_item (ObjectItem ks al val) =
     Join (map Text ks) '' '' @ (if length ks = 1 then '' = '' else '' '') @ ex_print val"

definition ex_json :: string where
  "ex_json = ''{'' @ [dquote] @ ''a'' @ [dquote] @ '':1}''"

definition ex_json_pretty :: string where
  "ex_json_pretty = ''{\<newline>  '' @ [dquote] @ ''a'' @ [dquote] @ '': 1\<newline>}''"

definition ex_json_indent :: "string \<Rightarrow> string option" where
  "ex_json_indent s = (if s = ex_json then Some ex_json_pretty else None)"

text \<open>A key token and a string literal as the JSON parser makes them: the text is in double quotes.\<close>

definition qkey :: "string \<Rightarrow> token" where
  "qkey s = Token 9 ([dquote] @ s @ [dquote])"

definition str_item :: "string \<Rightarrow> string \<Rightarrow> object_item" where
  "str_item k x = ObjectItem [qkey k] 0 (LiteralType (Token 9 ([dquote] @ x @ [dquote])))"

text \<open>
  The tree of a resource \<open>t.n\<close> with a block \<open>a\<close> that holds two items \<open>c\<close> and an item
  \<open>b\<close>, and a library whose parser returns it.
\<close>

definition ex_block_a :: "object_item list" where
  "ex_block_a = [str_item ''c'' ''2'', str_item ''c'' ''1'', str_item ''b'' ''0'']"

definition ex_tree :: node where
  "ex_tree =
     File (ObjectList
       [ObjectItem [qkey ''resource'', qkey ''t'', qkey ''n''] 0
          (ObjectType [ObjectItem [qkey ''a''] 0 (ObjectType ex_block_a)])])"

definition ex_lib :: "document hcl_lib" where
  "ex_lib =
     \<lparr>Fprint = (\<lambda>n. (ex_print n, None)),
      Unquote = ex_unquote,
      json_indent = ex_json_indent,
      jsonPrint = (\<lambda>d. Inr ''{}''),
      Parse = (\<lambda>s. Inr ex_tree),
      Format = (\<lambda>s. Inr s)\<rparr>"

definition ex_hints :: "(string \<times> (string \<times> string list) list) list" where
  "ex_hints = [(''t'', [(''n'', [''a.b'', ''a.c''])])]"

text \<open>Three resources; the third has the type and the name of the first.\<close>

definition ex_res1 :: Resource where
  "ex_res1 = ex_resource\<lparr>InstanceInfo_Type := ''t'', ResourceName := ''n'',
               Item := Some [(''name'', VString ''one'')],
               InstanceState_Attributes := [(''tags.%'', ''1''), (''tags.env'', ''prod'')],
               PreserveOrder := [''a.b'', ''a.c'']\<rparr>"

definition ex_res2 :: Resource where
  "ex_res2 = ex_resource\<lparr>InstanceInfo_Type := ''t'', ResourceName := ''m'',
               Item := Some [(''name'', VString ''two'')]\<rparr>"

definition ex_res3 :: Resource where
  "ex_res3 = ex_resource\<lparr>InstanceInfo_Type := ''t'', ResourceName := ''n'',
               Item := Some [(''name'', VString ''three'')],
               InstanceState_Attributes := [(''labels.%'', ''0'')]\<rparr>"

text \<open>The example tree after a visit, with the items of the block \<open>a\<close> in a given order.\<close>

definition vis_item :: "string \<Rightarrow> string \<Rightarrow> object_item" where
  "vis_item k x = ObjectItem [Token 9 k] 1 (LiteralType (Token 9 ([dquote] @ x @ [dquote])))"

definition ex_visited :: "object_item list \<Rightarrow> node" where
  "ex_visited items =
     File (ObjectList
       [ObjectItem [Token 9 ''resource'', qkey ''t'', qkey ''n''] 1
          (ObjectType [ObjectItem [Token 9 ''a''] 1 (ObjectType items)])])"

text \<open>The path of the block \<open>a\<close> of the example tree, and the sanitizer with sorting and the hints.\<close>

definition ex_path :: "string list" where
  "ex_path = [''resource'', ''t'', ''n'', ''a'']"

definition ex_sanitizer :: sanitizer where
  "ex_sanitizer = \<lparr>sort_flag = True, hints = ex_hints\<rparr>"

text \<open>A text in double quotes.\<close>

definition quoted :: "string \<Rightarrow> string" where
  "quoted s = [dquote] @ s @ [dquote]"

text \<open>
  A printed resource with an empty object \<open>aaaa\<close>, printed on one line, before the map
  \<open>tags\<close>; and one with a block \<open>blk\<close> that holds a heredoc with a JSON body before its
  map \<open>tags\<close>.
\<close>

definition ex_empty_object :: string where
  "ex_empty_object =
     ''resource '' @ quoted ''t'' @ '' '' @ quoted ''n''
       @ '' {\<newline>  aaaa = {}\<newline>  tags = {\<newline>    env = '' @ quoted ''prod'' @ ''\<newline>  }\<newline>}''"

definition ex_empty_object_out :: string where
  "ex_empty_object_out =
     ''resource '' @ quoted ''t'' @ '' '' @ quoted ''n''
       @ '' {\<newline>  aaaa {}\<newline>  tags {\<newline>    env = '' @ quoted ''prod'' @ ''\<newline>  }\<newline>}''"

definition ex_heredoc_brace :: string where
  "ex_heredoc_brace =
     ''resource '' @ quoted ''t'' @ '' '' @ quoted ''n''
       @ '' {\<newline>  blk = {\<newline>    policy = <<EOF\<newline>{\<newline>  '' @ quoted ''a''
       @ '': 1\<newline>}\<newline>EOF\<newline>    tags = {\<newline>      env = '' @ quoted ''prod''
       @ ''\<newline>    }\<newline>  }\<newline>}''"

definition ex_heredoc_brace_out :: string where
  "ex_heredoc_brace_out =
     ''resource '' @ quoted ''t'' @ '' '' @ quoted ''n''
       @ '' {\<newline>  blk {\<newline>    policy = <<EOF\<newline>{\<newline>  '' @ quoted ''a''
       @ '': 1\<newline>}\<newline>EOF\<newline>    tags {\<newline>      env = '' @ quoted ''prod''
       @ ''\<newline>    }\<newline>  }\<newline>}''"

text \<open>
  The example resource with a list of strings \<open>c\<close> in the block \<open>a\<close>, before and after
  a visit; and with the items \<open>c\<close> and \<open>b\<close> directly in the body of the resource.
\<close>

definition str_lit :: "string \<Rightarrow> node" where
  "str_lit x = LiteralType (Token 9 (quoted x))"

definition ex_tree_list :: node where
  "ex_tree_list =
     File (ObjectList
       [ObjectItem [qkey ''resource'', qkey ''t'', qkey ''n''] 0
          (ObjectType
             [ObjectItem [qkey ''a''] 0
                (ObjectType [ObjectItem [qkey ''c''] 0 (ListType [str_lit ''2'', str_lit ''1''])])])])"

definition ex_visited_list :: "node list \<Rightarrow> node" where
  "ex_visited_list elems =
     File (ObjectList
       [ObjectItem [Token 9 ''resource'', qkey ''t'', qkey ''n''] 1
          (ObjectType
             [ObjectItem [Token 9 ''a''] 1
                (ObjectType [ObjectItem [Token 9 ''c''] 1 (ListType elems)])])])"

definition ex_tree_top :: node where
  "ex_tree_top =
     File (ObjectList
       [ObjectItem [qkey ''resource'', qkey ''t'', qkey ''n''] 0 (ObjectType ex_block_a)])"

definition ex_visited_top :: "object_item list \<Rightarrow> node" where
  "ex_visited_top items =
     File (ObjectList
       [ObjectItem [Token 9 ''resource'', qkey ''t'', qkey ''n''] 1 (ObjectType items)])"

section \<open>Properties of TfSanitize\<close>

lemma udigits_all: "\<forall>n\<in>set [0..<16]. in_safe_class (udigits ! n)"
  by code_simp

lemma udigits_safe: "n < 16 \<Longrightarrow> in_safe_class (udigits ! n)"
  using udigits_all by simp

lemma byte_lt: "byte c < 256"
  unfolding byte_def by simp

lemma hex_byte_safe: "list_all in_safe_class (hex_byte c)"
  using byte_lt[of c] by (simp add: hex_byte_def udigits_safe)

lemma concat_hex_safe: "list_all in_safe_class (concat (map hex_byte s))"
  by (induction s) (simp_all add: hex_byte_safe)

lemma escapeRune_safe: "list_all in_safe_class (escapeRune s)"
proof -
  have "in_safe_class CHR ''0''" "in_safe_class CHR ''-''"
    by (simp_all add: in_safe_class_def byte_def)
  then show ?thesis
    using concat_hex_safe [of s]
    by (auto simp: escapeRune_def Let_def list_all_iff)
qed

lemma replace_unsafe_safe: "list_all in_safe_class (replace_unsafe s)"
proof (induction s rule: replace_unsafe.induct)
  case 1
  then show ?case by simp
next
  case (2 c cs)
  then show ?case
    using escapeRune_safe [of "c # take (rune_width (c # cs) - 1) cs"]
    by (simp del: rune_width.simps)
qed

text \<open>
  C10: for every input string, \<open>TfSanitize\<close> returns a name that starts with the prefix
  \<^verbatim>\<open>tfer--\<close> and whose every character lies in the safe class
  \<^verbatim>\<open>[0-9A-Za-z_-]\<close>.
\<close>

theorem TfSanitize_safe_identifier:
  "take 6 (TfSanitize name) = ''tfer--'' \<and> list_all in_safe_class (TfSanitize name)"
proof -
  have "list_all in_safe_class ''tfer--''"
    by (simp add: in_safe_class_def byte_def)
  then show ?thesis
    using replace_unsafe_safe [of name] by (simp add: TfSanitize_def)
qed

theorem TfSanitize_safe_identifier_witness:
  "TfSanitize ''my.domain com'' = ''tfer--my-002E-domain-0020-com'' \<and>
   take 6 (TfSanitize ''my.domain com'') = ''tfer--'' \<and>
   list_all in_safe_class (TfSanitize ''my.domain com'')"
proof -
  have e: "TfSanitize ''my.domain com'' = ''tfer--my-002E-domain-0020-com''"
    by code_simp
  show ?thesis
    by (rule conjI [OF e TfSanitize_safe_identifier])
qed

section \<open>Properties of pruning\<close>

lemma clean_block_list_map:
  "clean_block_list xs nb =
     map (\<lambda>x. case x of VMap m \<Rightarrow> VMap (cleanOptionalEmptyAttributes m nb) | _ \<Rightarrow> x) xs"
  by (induction xs) simp_all

lemma clean_filter_map:
  "cleanOptionalEmptyAttributes d bs =
     map (\<lambda>e. (fst e, descend bs (fst e) (snd e)))
       (filter (\<lambda>e. \<not> optional_zero bs (fst e) (snd e)) d)"
  by (induction d) (auto simp: descend_def split: option.splits tf_value.splits)

lemma clean_keys:
  "map fst (cleanOptionalEmptyAttributes d bs) =
     map fst (filter (\<lambda>e. \<not> optional_zero bs (fst e) (snd e)) d)"
  by (simp add: clean_filter_map comp_def)

lemma map_of_clean:
  "map_of d k = Some v \<Longrightarrow> \<not> optional_zero bs k v \<Longrightarrow>
   map_of (cleanOptionalEmptyAttributes d bs) k = Some (descend bs k v)"
  by (induction d) (auto simp: descend_def split: if_splits option.splits tf_value.splits)

lemma optional_zero_VSlice: "\<not> optional_zero bs k (VSlice xs)"
  by (simp add: optional_zero_def split: option.splits)

lemma sub_body_clean:
  "sub_body bs d p = Some (b', d') \<Longrightarrow>
   sub_body bs (cleanOptionalEmptyAttributes d bs) p = Some (b', cleanOptionalEmptyAttributes d' b')"
proof (induction p arbitrary: bs d)
  case Nil
  then show ?case by simp
next
  case (Cons s p)
  obtain k i where s: "s = (k, i)" by (cases s)
  from Cons.prems s obtain nb xs m where
    nb: "map_of (BlockTypes bs) k = Some nb" and
    xs: "map_of d k = Some (VSlice xs)" and
    i: "i < length xs" and
    m: "xs ! i = VMap m" and
    rest: "sub_body nb m p = Some (b', d')"
    by (auto split: option.splits tf_value.splits if_splits)
  have "map_of (cleanOptionalEmptyAttributes d bs) k = Some (VSlice (clean_block_list xs nb))"
    using map_of_clean [OF xs optional_zero_VSlice, of bs] nb by (simp add: descend_def)
  moreover have "clean_block_list xs nb ! i = VMap (cleanOptionalEmptyAttributes m nb)"
    using i m by (simp add: clean_block_list_map)
  moreover have "length (clean_block_list xs nb) = length xs"
    by (simp add: clean_block_list_map)
  ultimately show ?case
    using s nb i Cons.IH [OF rest] by simp
qed

lemma isZero_descend: "isZero (descend bs k v) = isZero v"
  by (simp add: descend_def split: option.splits tf_value.splits)

lemma optional_zero_descend: "optional_zero bs k (descend bs k v) = optional_zero bs k v"
  by (simp add: optional_zero_def isZero_descend split: option.splits)

lemma descend_attribute:
  "map_of (BlockTypes bs) k = None \<Longrightarrow> descend bs k v = v"
  by (simp add: descend_def)

text \<open>
  C3 (as amended): at every nesting level that pruning reaches through block-type
  children (every \<open>sub_body\<close> of the item), pruning deletes exactly the entries whose key
  is a schema-optional attribute and whose value is the zero value of its dynamic type
  (\<open>isZero\<close>: nil, the empty string, false, 0, a nil slice, a nil map), and keeps every
  other entry, in order; the value of a kept entry changes only below a block-type key.
  A non-nil empty sequence or mapping is not a zero value and is kept.
\<close>

theorem prune_exact:
  assumes "sub_body bs d p = Some (b', d')"
  shows "\<exists>d''. sub_body bs (cleanOptionalEmptyAttributes d bs) p = Some (b', d'') \<and>
           map fst d'' = map fst (filter (\<lambda>e. \<not> optional_zero b' (fst e) (snd e)) d') \<and>
           (\<forall>e\<in>set d'. \<not> optional_zero b' (fst e) (snd e) \<longrightarrow>
                (fst e, descend b' (fst e) (snd e)) \<in> set d'') \<and>
           (\<forall>e\<in>set d''. \<not> optional_zero b' (fst e) (snd e))"
proof -
  let ?d = "cleanOptionalEmptyAttributes d' b'"
  have 1: "sub_body bs (cleanOptionalEmptyAttributes d bs) p = Some (b', ?d)"
    by (rule sub_body_clean [OF assms])
  have 2: "map fst ?d = map fst (filter (\<lambda>e. \<not> optional_zero b' (fst e) (snd e)) d')"
    by (rule clean_keys)
  have 3: "\<forall>e\<in>set d'. \<not> optional_zero b' (fst e) (snd e) \<longrightarrow>
             (fst e, descend b' (fst e) (snd e)) \<in> set ?d"
    by (force simp: clean_filter_map)
  have 4: "\<forall>e\<in>set ?d. \<not> optional_zero b' (fst e) (snd e)"
    by (auto simp: clean_filter_map optional_zero_descend)
  from 1 2 3 4 show ?thesis by blast
qed

theorem prune_exact_witness:
  "sub_body ex_schema ex_item [(''rule'', 0)] = Some (ex_rule_schema, ex_rule_body) \<and>
   (\<exists>d''. sub_body ex_schema (cleanOptionalEmptyAttributes ex_item ex_schema) [(''rule'', 0)]
            = Some (ex_rule_schema, d'') \<and>
          map fst d'' = [''project'', ''x''] \<and>
          (''project'', VString ''p1'') \<in> set d'')"
proof -
  have h: "sub_body ex_schema ex_item [(''rule'', 0)] = Some (ex_rule_schema, ex_rule_body)"
    by (simp add: ex_schema_def ex_item_def)
  have f: "filter (\<lambda>e. \<not> optional_zero ex_rule_schema (fst e) (snd e)) ex_rule_body
             = [(''project'', VString ''p1''), (''x'', VNil)]"
    by (simp add: ex_rule_body_def ex_rule_schema_def optional_zero_def opt_attr_def)
  have d: "descend ex_rule_schema ''project'' (VString ''p1'') = VString ''p1''"
    by (simp add: descend_def split: option.splits)
  from prune_exact [OF h] obtain d'' where
    1: "sub_body ex_schema (cleanOptionalEmptyAttributes ex_item ex_schema) [(''rule'', 0)]
          = Some (ex_rule_schema, d'')" and
    2: "map fst d'' = map fst (filter (\<lambda>e. \<not> optional_zero ex_rule_schema (fst e) (snd e)) ex_rule_body)" and
    3: "\<forall>e\<in>set ex_rule_body. \<not> optional_zero ex_rule_schema (fst e) (snd e) \<longrightarrow>
          (fst e, descend ex_rule_schema (fst e) (snd e)) \<in> set d''"
    by blast
  have "(''project'', VString ''p1'') \<in> set ex_rule_body"
    by (simp add: ex_rule_body_def)
  moreover have "\<not> optional_zero ex_rule_schema ''project'' (VString ''p1'')"
    by (simp add: optional_zero_def ex_rule_schema_def)
  ultimately have "(''project'', descend ex_rule_schema ''project'' (VString ''p1'')) \<in> set d''"
    using 3 by force
  with 1 2 f d h show ?thesis by auto
qed

text \<open>
  The claim as first stated counts an empty sequence and an empty mapping among the zero
  values; a non-nil empty slice or map under an optional attribute is kept.
\<close>

theorem prune_empty_sequence_counterexample:
  "cleanOptionalEmptyAttributes [(''description'', VSlice []), (''name'', VMap [])]
       (Block [(''description'', opt_attr), (''name'', opt_attr)] [])
     = [(''description'', VSlice []), (''name'', VMap [])]"
  by (simp add: optional_zero_def opt_attr_def)

text \<open>The example of the specification: an optional empty description goes, a non-empty one stays.\<close>

lemma prune_description_example:
  "cleanOptionalEmptyAttributes [(''description'', VString [])] ex_schema = [] \<and>
   cleanOptionalEmptyAttributes [(''description'', VString ''x'')] ex_schema
     = [(''description'', VString ''x'')]"
  by (simp add: optional_zero_def ex_schema_def opt_attr_def)

section \<open>The top-level project attribute\<close>

lemma kept_entry:
  "(k, v) \<in> set d \<Longrightarrow> \<not> optional_zero bs k v \<Longrightarrow>
   (k, descend bs k v) \<in> set (cleanOptionalEmptyAttributes d bs)"
  by (force simp: clean_filter_map)

lemma map_of_delete_key: "k \<noteq> k' \<Longrightarrow> map_of (delete_key k' d) k = map_of d k"
  by (induction d) (auto simp: delete_key_def)

lemma sub_body_delete_key:
  "k \<noteq> k' \<Longrightarrow> sub_body bs (delete_key k' d) ((k, i) # p) = sub_body bs d ((k, i) # p)"
  by (simp add: map_of_delete_key split: option.splits)

lemma delete_key_absent: "k \<notin> fst ` set (delete_key k d)"
  by (auto simp: delete_key_def)

lemma clean_keys_subset: "fst ` set (cleanOptionalEmptyAttributes d bs) \<subseteq> fst ` set d"
  by (force simp: clean_filter_map)

text \<open>
  C5: when the schema declares a computed top-level attribute \<open>project\<close>, pruning
  deletes the key \<open>project\<close> of the item whatever its value; in a nested block (any
  \<open>sub_body\<close> below the root) a \<open>project\<close> entry is subject to the ordinary rule only:
  unless it is optional and zero there, it is still present after pruning.
\<close>

theorem project_deleted_at_root_only:
  assumes "map_of (Attributes bs) ''project'' = Some a" and "Computed a"
  shows "\<exists>d1. CleanUpOptionalEmptyAttributes (Some d) (Some bs) = Some d1 \<and>
           ''project'' \<notin> fst ` set d1 \<and>
           (\<forall>k i p b' d' v.
              k \<noteq> ''project'' \<and> sub_body bs d ((k, i) # p) = Some (b', d') \<and>
              (''project'', v) \<in> set d' \<and> \<not> optional_zero b' ''project'' v \<longrightarrow>
              (\<exists>d''. sub_body bs d1 ((k, i) # p) = Some (b', d'') \<and>
                     (''project'', descend b' ''project'' v) \<in> set d''))"
proof -
  let ?d0 = "delete_key ''project'' d"
  let ?d1 = "cleanOptionalEmptyAttributes ?d0 bs"
  have 1: "CleanUpOptionalEmptyAttributes (Some d) (Some bs) = Some ?d1"
    using assms by (simp add: CleanUpOptionalEmptyAttributes_def)
  have 2: "''project'' \<notin> fst ` set ?d1"
    using clean_keys_subset [of ?d0 bs] delete_key_absent [of "''project''" d] by blast
  have 3: "\<exists>d''. sub_body bs ?d1 ((k, i) # p) = Some (b', d'') \<and>
                 (''project'', descend b' ''project'' v) \<in> set d''"
    if k: "k \<noteq> ''project''" and s: "sub_body bs d ((k, i) # p) = Some (b', d')"
      and m: "(''project'', v) \<in> set d'" and z: "\<not> optional_zero b' ''project'' v"
    for k i p b' d' v
  proof -
    have "sub_body bs ?d0 ((k, i) # p) = Some (b', d')"
      by (rule trans [OF sub_body_delete_key [OF k] s])
    then have a: "sub_body bs ?d1 ((k, i) # p) = Some (b', cleanOptionalEmptyAttributes d' b')"
      by (rule sub_body_clean)
    from m z have "(''project'', descend b' ''project'' v) \<in> set (cleanOptionalEmptyAttributes d' b')"
      by (rule kept_entry)
    with a show ?thesis by blast
  qed
  from 1 2 3 show ?thesis by blast
qed

theorem project_deleted_at_root_only_witness:
  "map_of (Attributes ex_schema) ''project'' = Some comp_attr \<and> Computed comp_attr \<and>
   (''project'', VString ''p0'') \<in> set ex_item \<and>
   (\<exists>d1. CleanUpOptionalEmptyAttributes (Some ex_item) (Some ex_schema) = Some d1 \<and>
      ''project'' \<notin> fst ` set d1 \<and>
      (\<exists>d''. sub_body ex_schema d1 [(''rule'', 0)] = Some (ex_rule_schema, d'') \<and>
             (''project'', VString ''p1'') \<in> set d''))"
proof -
  have a: "map_of (Attributes ex_schema) ''project'' = Some comp_attr"
    by (simp add: ex_schema_def)
  have c: "Computed comp_attr"
    by (simp add: comp_attr_def)
  have i: "(''project'', VString ''p0'') \<in> set ex_item"
    by (simp add: ex_item_def)
  have s: "sub_body ex_schema ex_item [(''rule'', 0)] = Some (ex_rule_schema, ex_rule_body)"
    by (simp add: ex_schema_def ex_item_def)
  have m: "(''project'', VString ''p1'') \<in> set ex_rule_body"
    by (simp add: ex_rule_body_def)
  have z: "\<not> optional_zero ex_rule_schema ''project'' (VString ''p1'')"
    by (simp add: optional_zero_def ex_rule_schema_def)
  have d: "descend ex_rule_schema ''project'' (VString ''p1'') = VString ''p1''"
    by (simp add: descend_def split: option.splits)
  have k: "''rule'' \<noteq> ''project''"
    by simp
  from project_deleted_at_root_only [OF a c, of ex_item] obtain d1 where
    1: "CleanUpOptionalEmptyAttributes (Some ex_item) (Some ex_schema) = Some d1" and
    2: "''project'' \<notin> fst ` set d1" and
    3: "\<forall>k i p b' d' v.
          k \<noteq> ''project'' \<and> sub_body ex_schema ex_item ((k, i) # p) = Some (b', d') \<and>
          (''project'', v) \<in> set d' \<and> \<not> optional_zero b' ''project'' v \<longrightarrow>
          (\<exists>d''. sub_body ex_schema d1 ((k, i) # p) = Some (b', d'') \<and>
                 (''project'', descend b' ''project'' v) \<in> set d'')"
    by (elim exE conjE)
  from 3 [rule_format, of "''rule''" 0 "[]" ex_rule_schema ex_rule_body "VString ''p1''"] k s m z
  obtain d'' where
    4: "sub_body ex_schema d1 [(''rule'', 0)] = Some (ex_rule_schema, d'')" and
    5: "(''project'', descend ex_rule_schema ''project'' (VString ''p1'')) \<in> set d''"
    by blast
  from 5 d have 6: "(''project'', VString ''p1'') \<in> set d''"
    by (simp only:)
  from 4 6 have "\<exists>d''. sub_body ex_schema d1 [(''rule'', 0)] = Some (ex_rule_schema, d'') \<and>
             (''project'', VString ''p1'') \<in> set d''"
    by blast
  with 1 2 have "\<exists>d1. CleanUpOptionalEmptyAttributes (Some ex_item) (Some ex_schema) = Some d1 \<and>
      ''project'' \<notin> fst ` set d1 \<and>
      (\<exists>d''. sub_body ex_schema d1 [(''rule'', 0)] = Some (ex_rule_schema, d'') \<and>
             (''project'', VString ''p1'') \<in> set d'')"
    by blast
  with a c i show ?thesis
    by (intro conjI)
qed

section \<open>ConvertTFstate and AllowEmptyValues\<close>

lemma clean_no_optional_zero:
  "e \<in> set (cleanOptionalEmptyAttributes d bs) \<Longrightarrow> \<not> optional_zero bs (fst e) (snd e)"
  by (auto simp: clean_filter_map optional_zero_descend)

lemma map_of_clean_Some:
  "map_of (cleanOptionalEmptyAttributes d bs) k = Some w \<Longrightarrow> \<exists>v. w = descend bs k v"
  by (auto simp: clean_filter_map dest!: map_of_SomeD)

lemma sub_body_of_clean:
  "sub_body bs (cleanOptionalEmptyAttributes d bs) p = Some (b', d'') \<Longrightarrow>
   \<exists>d'. d'' = cleanOptionalEmptyAttributes d' b'"
proof (induction p arbitrary: bs d)
  case Nil
  then show ?case by auto
next
  case (Cons s p)
  obtain k i where s: "s = (k, i)" by (cases s)
  from Cons.prems s obtain nb ys m' where
    nb: "map_of (BlockTypes bs) k = Some nb" and
    ys: "map_of (cleanOptionalEmptyAttributes d bs) k = Some (VSlice ys)" and
    i: "i < length ys" and
    m': "ys ! i = VMap m'" and
    rest: "sub_body nb m' p = Some (b', d'')"
    by (auto split: option.splits tf_value.splits if_splits)
  from map_of_clean_Some [OF ys] obtain v where v: "VSlice ys = descend bs k v" by blast
  with nb obtain xs where xs: "ys = clean_block_list xs nb"
    by (auto simp: descend_def split: tf_value.splits)
  with i m' obtain m where "m' = cleanOptionalEmptyAttributes m nb"
    by (auto simp: clean_block_list_map split: tf_value.splits)
  with rest Cons.IH show ?case by blast
qed

lemma CleanUp_sub_body_pruned:
  assumes "CleanUpOptionalEmptyAttributes (Some d0) (Some bs) = Some d"
    and "sub_body bs d p = Some (b', d')"
  shows "\<forall>e\<in>set d'. \<not> optional_zero b' (fst e) (snd e)"
proof -
  from assms(1) obtain d1 where "d = cleanOptionalEmptyAttributes d1 bs"
    by (auto simp: CleanUpOptionalEmptyAttributes_def Let_def split: option.splits if_splits)
  with assms(2) sub_body_of_clean obtain d2 where "d' = cleanOptionalEmptyAttributes d2 b'"
    by blast
  then show ?thesis
    using clean_no_optional_zero by blast
qed

text \<open>
  C8 (as amended): \<^verbatim>\<open>AllowEmptyValues\<close> reaches the flatmap parser only. Pruning
  runs after it with the schema alone, so whatever the patterns are, after
  \<^verbatim>\<open>ConvertTFstate\<close> no schema-optional zero-valued attribute is left at any level
  that pruning reaches.
\<close>

theorem ConvertTFstate_prunes_whatever_is_allowed:
  assumes "ConvertTFstate env (Some bs) r = Inr r'"
  shows "\<exists>d. Item r' = Some d \<and>
           (\<forall>p b' d'. sub_body bs d p = Some (b', d') \<longrightarrow>
              (\<forall>e\<in>set d'. \<not> optional_zero b' (fst e) (snd e)))"
proof -
  from assms obtain r1 where
    p: "ParseTFstate (flatmap_parse env (InstanceState_Attributes r) (IgnoreKeys r)
          (filter (\<lambda>pattern. pattern \<noteq> []) (AllowEmptyValues r)) (Some bs)) r = Inr r1" and
    r': "r' = r1\<lparr>Item := CleanUpOptionalEmptyAttributes (Item r1) (Some bs)\<rparr>"
    by (auto simp: ConvertTFstate_def Let_def split: if_splits sum.splits)
  from p obtain d0 where d0: "Item r1 = Some d0"
    by (auto simp: ParseTFstate_def split: sum.splits option.splits if_splits)
  then obtain d where d: "CleanUpOptionalEmptyAttributes (Some d0) (Some bs) = Some d"
    by (auto simp: CleanUpOptionalEmptyAttributes_def Let_def split: option.splits)
  with r' d0 have "Item r' = Some d" by simp
  moreover have "\<forall>p b' d'. sub_body bs d p = Some (b', d') \<longrightarrow>
              (\<forall>e\<in>set d'. \<not> optional_zero b' (fst e) (snd e))"
    using CleanUp_sub_body_pruned [OF d] by blast
  ultimately show ?thesis by blast
qed

theorem ConvertTFstate_prunes_whatever_is_allowed_witness:
  "ConvertTFstate scalar_env (Some ex_schema) ex_resource
     = Inr (ex_resource\<lparr>Item := Some [(''name'', VString [])]\<rparr>) \<and>
   (\<exists>d. Item (ex_resource\<lparr>Item := Some [(''name'', VString [])]\<rparr>) = Some d \<and>
        list_all (\<lambda>e. \<not> optional_zero ex_schema (fst e) (snd e)) d)"
proof -
  have c: "ConvertTFstate scalar_env (Some ex_schema) ex_resource
             = Inr (ex_resource\<lparr>Item := Some [(''name'', VString [])]\<rparr>)"
    by (simp add: ConvertTFstate_def ParseTFstate_def scalar_env_def decode_scalars_def
        ex_resource_def CleanUpOptionalEmptyAttributes_def ex_schema_def optional_zero_def
        opt_attr_def req_attr_def comp_attr_def delete_key_def)
  from ConvertTFstate_prunes_whatever_is_allowed [OF c] obtain d where
    1: "Item (ex_resource\<lparr>Item := Some [(''name'', VString [])]\<rparr>) = Some d" and
    2: "\<forall>p b' d'. sub_body ex_schema d p = Some (b', d') \<longrightarrow>
          (\<forall>e\<in>set d'. \<not> optional_zero b' (fst e) (snd e))"
    by blast
  have "sub_body ex_schema d [] = Some (ex_schema, d)"
    by simp
  with 2 have "\<forall>e\<in>set d. \<not> optional_zero ex_schema (fst e) (snd e)"
    by blast
  then have l: "list_all (\<lambda>e. \<not> optional_zero ex_schema (fst e) (snd e)) d"
    by (simp add: list_all_iff)
  from 1 l have "\<exists>d. Item (ex_resource\<lparr>Item := Some [(''name'', VString [])]\<rparr>) = Some d \<and>
        list_all (\<lambda>e. \<not> optional_zero ex_schema (fst e) (snd e)) d"
    by (intro exI [of _ d] conjI)
  with c show ?thesis by (rule conjI)
qed

text \<open>
  The claim as first stated: an attribute whose key matches a pattern of
  \<^verbatim>\<open>AllowEmptyValues\<close> remains after \<^verbatim>\<open>ConvertTFstate\<close> even when it is
  schema-optional and zero-valued. Here the pattern is the key \<open>description\<close> itself,
  the parser keeps the empty description, and pruning deletes it.
\<close>

theorem allow_empty_not_exempt_counterexample:
  "''description'' \<in> set (AllowEmptyValues ex_resource) \<and>
   flatmap_parse scalar_env (InstanceState_Attributes ex_resource) (IgnoreKeys ex_resource)
       (AllowEmptyValues ex_resource) (Some ex_schema)
     = Inr (Some [(''description'', VString []), (''name'', VString [])]) \<and>
   optional_zero ex_schema ''description'' (VString []) \<and>
   map_option Item
       (case ConvertTFstate scalar_env (Some ex_schema) ex_resource of
          Inl e \<Rightarrow> None | Inr r \<Rightarrow> Some r)
     = Some (Some [(''name'', VString [])])"
  by (simp add: ConvertTFstate_def ParseTFstate_def scalar_env_def decode_scalars_def
      ex_resource_def CleanUpOptionalEmptyAttributes_def ex_schema_def optional_zero_def
      opt_attr_def req_attr_def comp_attr_def delete_key_def)

section \<open>Properties of the assembly loop\<close>

lemma map_of_assign: "map_of (assign k v m) k' = (if k' = k then Some v else map_of m k')"
  by (induction m) auto

lemma step_dup:
  "is_dup st res \<Longrightarrow>
   assemble_step st res =
     st\<lparr>warnings := warnings st
          @ [''[ERR]: duplicate resource found: '' @ InstanceInfo_Type res @ ''.'' @ ResourceName res]\<rparr>"
  by (auto simp: is_dup_def lookup2_def assemble_step_def Let_def split: option.splits)

lemma step_new_lookup:
  "\<not> is_dup st res \<Longrightarrow>
   lookup2 (resourcesByType (assemble_step st res)) t n =
     (if t = InstanceInfo_Type res \<and> n = ResourceName res then Some (Item res)
      else lookup2 (resourcesByType st) t n)"
  by (auto simp: is_dup_def lookup2_def assemble_step_def Let_def map_of_assign split: option.splits)

lemma step_new_warnings:
  "\<not> is_dup st res \<Longrightarrow> warnings (assemble_step st res) = warnings st"
  by (auto simp: is_dup_def lookup2_def assemble_step_def Let_def split: option.splits)


lemma doc_step_cong: "doc st = doc st' \<Longrightarrow> doc (assemble_step st res) = doc (assemble_step st' res)"
  by (auto simp: doc_def assemble_step_def Let_def split: option.splits)

lemma doc_foldl_cong:
  "doc st = doc st' \<Longrightarrow> doc (foldl assemble_step st rs) = doc (foldl assemble_step st' rs)"
proof (induction rs arbitrary: st st')
  case Nil
  then show ?case by simp
next
  case (Cons res rs)
  from Cons.prems have "doc (assemble_step st res) = doc (assemble_step st' res)"
    by (rule doc_step_cong)
  then have "doc (foldl assemble_step (assemble_step st res) rs)
               = doc (foldl assemble_step (assemble_step st' res) rs)"
    by (rule Cons.IH)
  then show ?case by simp
qed

lemma is_dup_doc: "doc st = doc st' \<Longrightarrow> is_dup st res = is_dup st' res"
  by (simp add: doc_def is_dup_def)

lemma is_dup_keys: "is_dup st res \<longleftrightarrow> res_key res \<in> keys_of st"
  by (simp add: is_dup_def keys_of_def res_key_def)

lemma keys_of_step_dup: "is_dup st res \<Longrightarrow> keys_of (assemble_step st res) = keys_of st"
  by (simp add: step_dup keys_of_def)

lemma keys_of_step_new:
  "\<not> is_dup st res \<Longrightarrow> keys_of (assemble_step st res) = insert (res_key res) (keys_of st)"
  by (auto simp: keys_of_def step_new_lookup res_key_def)

lemma length_first_occurrences: "length (first_occurrences seen rs) \<le> length rs"
  by (induction rs arbitrary: seen) (auto simp: le_SucI)

lemma foldl_doc_first_occurrences:
  "keys_of st = set seen \<Longrightarrow>
   doc (foldl assemble_step st rs) = doc (foldl assemble_step st (first_occurrences seen rs))"
proof (induction rs arbitrary: st seen)
  case Nil
  then show ?case by simp
next
  case (Cons res rs)
  show ?case
  proof (cases "is_dup st res")
    case True
    then have k: "(InstanceInfo_Type res, ResourceName res) \<in> set seen"
      using Cons.prems by (simp add: is_dup_keys res_key_def)
    have "doc (assemble_step st res) = doc st"
      using True by (simp add: step_dup doc_def)
    then have "doc (foldl assemble_step (assemble_step st res) rs) = doc (foldl assemble_step st rs)"
      by (rule doc_foldl_cong)
    also have "\<dots> = doc (foldl assemble_step st (first_occurrences seen rs))"
      using Cons.prems by (rule Cons.IH)
    finally show ?thesis using k by simp
  next
    case False
    then have k: "(InstanceInfo_Type res, ResourceName res) \<notin> set seen"
      using Cons.prems by (simp add: is_dup_keys res_key_def)
    have "keys_of (assemble_step st res) = set ((InstanceInfo_Type res, ResourceName res) # seen)"
      using False Cons.prems by (simp add: keys_of_step_new res_key_def)
    from Cons.IH [OF this] show ?thesis using k by simp
  qed
qed

lemma foldl_warnings_count:
  "keys_of st = set seen \<Longrightarrow>
   length (warnings (foldl assemble_step st rs)) + length (first_occurrences seen rs)
     = length (warnings st) + length rs"
proof (induction rs arbitrary: st seen)
  case Nil
  then show ?case by simp
next
  case (Cons res rs)
  show ?case
  proof (cases "is_dup st res")
    case True
    then have k: "(InstanceInfo_Type res, ResourceName res) \<in> set seen"
      using Cons.prems by (simp add: is_dup_keys res_key_def)
    have "keys_of (assemble_step st res) = set seen"
      using True Cons.prems by (simp add: keys_of_step_dup)
    from Cons.IH [OF this] show ?thesis using k True by (simp add: step_dup)
  next
    case False
    then have k: "(InstanceInfo_Type res, ResourceName res) \<notin> set seen"
      using Cons.prems by (simp add: is_dup_keys res_key_def)
    have "keys_of (assemble_step st res) = set ((InstanceInfo_Type res, ResourceName res) # seen)"
      using False Cons.prems by (simp add: keys_of_step_new res_key_def)
    from Cons.IH [OF this] show ?thesis using k False by (simp add: step_new_warnings)
  qed
qed

lemma foldl_lookup_first:
  "lookup2 (resourcesByType (foldl assemble_step st rs)) t n =
     (case lookup2 (resourcesByType st) t n of
        Some x \<Rightarrow> Some x
      | None \<Rightarrow> map_option Item (find (\<lambda>r. InstanceInfo_Type r = t \<and> ResourceName r = n) rs))"
proof (induction rs arbitrary: st)
  case Nil
  then show ?case by (simp split: option.splits)
next
  case (Cons res rs)
  show ?case
  proof (cases "is_dup st res")
    case True
    then have "resourcesByType (assemble_step st res) = resourcesByType st"
      by (simp add: step_dup)
    then show ?thesis
      using True Cons.IH [of "assemble_step st res"]
      by (auto simp: is_dup_def split: option.splits)
  next
    case False
    then show ?thesis
      using Cons.IH [of "assemble_step st res"]
      by (auto simp: step_new_lookup is_dup_def split: option.splits)
  qed
qed

lemma keys_of_empty: "keys_of empty_assembly = set []"
  by (simp add: keys_of_def empty_assembly_def lookup2_def)

lemma HclPrintResource_doc:
  "doc (assemble rs) = doc (assemble rs') \<Longrightarrow>
   HclPrintResource lib rs pd out srt = HclPrintResource lib rs' pd out srt"
  by (simp add: HclPrintResource_def doc_def Let_def)

text \<open>
  C9: for every type and name, the entry of \<^verbatim>\<open>resourcesByType\<close> is the item of the
  first resource of the list with that type and name, so a later duplicate changes
  neither that entry nor any other; there is one warning for each duplicate; and the
  rendering is the rendering of the list without the duplicates, so it succeeds whenever
  that one does.
\<close>

theorem duplicates_dropped:
  "lookup2 (resourcesByType (assemble rs)) t n
     = map_option Item (find (\<lambda>r. InstanceInfo_Type r = t \<and> ResourceName r = n) rs) \<and>
   length (warnings (assemble rs)) + length (first_occurrences [] rs) = length rs \<and>
   HclPrintResource lib rs pd out srt = HclPrintResource lib (first_occurrences [] rs) pd out srt"
proof -
  have 1: "lookup2 (resourcesByType (assemble rs)) t n
     = map_option Item (find (\<lambda>r. InstanceInfo_Type r = t \<and> ResourceName r = n) rs)"
    using foldl_lookup_first [of empty_assembly rs t n]
    by (simp add: assemble_def empty_assembly_def lookup2_def)
  have 2: "length (warnings (assemble rs)) + length (first_occurrences [] rs) = length rs"
    using foldl_warnings_count [OF keys_of_empty, of rs]
    by (simp add: assemble_def empty_assembly_def)
  have "doc (assemble rs) = doc (assemble (first_occurrences [] rs))"
    using foldl_doc_first_occurrences [OF keys_of_empty, of rs]
    by (simp add: assemble_def)
  then have 3: "HclPrintResource lib rs pd out srt = HclPrintResource lib (first_occurrences [] rs) pd out srt"
    by (rule HclPrintResource_doc)
  from 1 2 3 show ?thesis by (intro conjI)
qed

theorem duplicates_dropped_witness:
  "lookup2 (resourcesByType (assemble [ex_res1, ex_res2, ex_res3])) ''t'' ''n''
     = Some (Some [(''name'', VString ''one'')]) \<and>
   length (warnings (assemble [ex_res1, ex_res2, ex_res3])) = 1 \<and>
   HclPrintResource ex_lib [ex_res1, ex_res2, ex_res3] [] ''hcl'' True
     = HclPrintResource ex_lib [ex_res1, ex_res2] [] ''hcl'' True"
proof -
  have f: "find (\<lambda>r. InstanceInfo_Type r = ''t'' \<and> ResourceName r = ''n'') [ex_res1, ex_res2, ex_res3]
             = Some ex_res1"
    by (simp add: ex_res1_def)
  have i: "Item ex_res1 = Some [(''name'', VString ''one'')]"
    by (simp add: ex_res1_def)
  have o: "first_occurrences [] [ex_res1, ex_res2, ex_res3] = [ex_res1, ex_res2]"
    by (simp add: ex_res1_def ex_res2_def ex_res3_def)
  note t = duplicates_dropped [of "[ex_res1, ex_res2, ex_res3]" "''t''" "''n''" ex_lib "[]" "''hcl''" True]
  have 1: "lookup2 (resourcesByType (assemble [ex_res1, ex_res2, ex_res3])) ''t'' ''n''
             = Some (Some [(''name'', VString ''one'')])"
    using conjunct1 [OF t] by (simp only: f i option.map)
  have "length (warnings (assemble [ex_res1, ex_res2, ex_res3])) + length [ex_res1, ex_res2]
          = length [ex_res1, ex_res2, ex_res3]"
    using conjunct1 [OF conjunct2 [OF t]] by (simp only: o)
  then have 2: "length (warnings (assemble [ex_res1, ex_res2, ex_res3])) = 1"
    by simp
  have 3: "HclPrintResource ex_lib [ex_res1, ex_res2, ex_res3] [] ''hcl'' True
             = HclPrintResource ex_lib [ex_res1, ex_res2] [] ''hcl'' True"
    using conjunct2 [OF conjunct2 [OF t]] by (simp only: o)
  from 1 2 3 show ?thesis
    by (intro conjI)
qed

section \<open>Determinism of the rendering\<close>

lemma map_paths_set: "set a = set b \<Longrightarrow> map_paths a = map_paths b"
  by (simp add: map_paths_def)

lemma step_update_attributes:
  "map_paths a = map_paths (InstanceState_Attributes r) \<Longrightarrow>
   doc (assemble_step st (r\<lparr>InstanceState_Attributes := a\<rparr>)) = doc (assemble_step st r)"
  by (simp add: doc_def assemble_step_def Let_def split: option.splits)

lemma step_same_but_order:
  assumes "doc st = doc st'" and "same_but_order r r'"
  shows "doc (assemble_step st r) = doc (assemble_step st' r')"
proof -
  define a where "a = InstanceState_Attributes r'"
  from assms(2) have e: "r' = r\<lparr>InstanceState_Attributes := a\<rparr>"
    and s: "set a = set (InstanceState_Attributes r)"
    by (simp_all add: same_but_order_def a_def)
  from s have m: "map_paths a = map_paths (InstanceState_Attributes r)"
    by (rule map_paths_set)
  have "doc (assemble_step st' r') = doc (assemble_step st' r)"
    unfolding e using m by (rule step_update_attributes)
  with doc_step_cong [OF assms(1), of r] show ?thesis by simp
qed

lemma foldl_same_but_order:
  "list_all2 same_but_order rs rs' \<Longrightarrow> doc st = doc st' \<Longrightarrow>
   doc (foldl assemble_step st rs) = doc (foldl assemble_step st' rs')"
proof (induction rs rs' arbitrary: st st' rule: list_all2_induct)
  case Nil
  then show ?case by simp
next
  case (Cons r rs r' rs')
  from Cons.prems Cons.hyps(1) have "doc (assemble_step st r) = doc (assemble_step st' r')"
    by (rule step_same_but_order)
  then have "doc (foldl assemble_step (assemble_step st r) rs)
               = doc (foldl assemble_step (assemble_step st' r') rs')"
    by (rule Cons.IH)
  then show ?case by simp
qed

lemma sorted_texts_unique:
  fixes k :: "'a \<Rightarrow> string"
  assumes "mset ys = mset zs" and "sorted (map k ys)" and "sorted (map k zs)"
  shows "map k ys = map k zs"
proof -
  from assms(1) have "mset (map k ys) = mset (map k zs)" by simp
  then have "sort (map k zs) = map k ys"
    using assms(2) by (intro properties_for_sort) simp_all
  moreover have "sort (map k zs) = map k zs"
    using assms(3) by (simp add: sorted_sort_id)
  ultimately show ?thesis by simp
qed

text \<open>
  C1: the output of \<^verbatim>\<open>HclPrintResource\<close> is a function of its inputs. The two things
  that can differ between two runs of the Go code on the same inputs do not reach the
  output: the order in which the attribute map of a resource is ranged over, and the
  order in which the sort leaves items of equal text (any two sorted arrangements of the
  same items show the same texts in the same order).
\<close>

theorem rendering_deterministic:
  "(list_all2 same_but_order rs rs' \<longrightarrow>
      HclPrintResource lib rs' pd out srt = HclPrintResource lib rs pd out srt) \<and>
   (mset ys = mset zs \<and> sorted (map (render lib) ys) \<and> sorted (map (render lib) zs) \<longrightarrow>
      map (render lib) ys = map (render lib) zs)"
proof (intro conjI impI)
  assume "list_all2 same_but_order rs rs'"
  then have "doc (assemble rs) = doc (assemble rs')"
    unfolding assemble_def by (rule foldl_same_but_order) simp
  then show "HclPrintResource lib rs' pd out srt = HclPrintResource lib rs pd out srt"
    by (rule HclPrintResource_doc [symmetric])
next
  assume "mset ys = mset zs \<and> sorted (map (render lib) ys) \<and> sorted (map (render lib) zs)"
  then show "map (render lib) ys = map (render lib) zs"
    using sorted_texts_unique [of ys zs "render lib"] by blast
qed

theorem rendering_deterministic_witness:
  "list_all2 same_but_order [ex_res1] [ex_res1\<lparr>InstanceState_Attributes := rev (InstanceState_Attributes ex_res1)\<rparr>] \<and>
   HclPrintResource ex_lib [ex_res1\<lparr>InstanceState_Attributes := rev (InstanceState_Attributes ex_res1)\<rparr>] [] ''hcl'' True
     = HclPrintResource ex_lib [ex_res1] [] ''hcl'' True \<and>
   mset [LiteralType (Token 9 ''x''), LiteralType (Token 4 ''x'')]
     = mset [LiteralType (Token 4 ''x''), LiteralType (Token 9 ''x'')] \<and>
   map (render ex_lib) [LiteralType (Token 9 ''x''), LiteralType (Token 4 ''x'')]
     = map (render ex_lib) [LiteralType (Token 4 ''x''), LiteralType (Token 9 ''x'')]"
proof -
  let ?r' = "ex_res1\<lparr>InstanceState_Attributes := rev (InstanceState_Attributes ex_res1)\<rparr>"
  let ?ys = "[LiteralType (Token 9 ''x''), LiteralType (Token 4 ''x'')]"
  let ?zs = "[LiteralType (Token 4 ''x''), LiteralType (Token 9 ''x'')]"
  have a: "list_all2 same_but_order [ex_res1] [?r']"
    by (simp add: same_but_order_def)
  have m: "mset ?ys = mset ?zs"
    by simp
  have s1: "sorted (map (render ex_lib) ?ys)"
    by (simp add: render_def ex_lib_def)
  have s2: "sorted (map (render ex_lib) ?zs)"
    by (simp add: render_def ex_lib_def)
  note t = rendering_deterministic [of "[ex_res1]" "[?r']" ex_lib "[]" "''hcl''" True ?ys ?zs]
  have 1: "HclPrintResource ex_lib [?r'] [] ''hcl'' True = HclPrintResource ex_lib [ex_res1] [] ''hcl'' True"
    by (rule mp [OF conjunct1 [OF t] a])
  have 2: "map (render ex_lib) ?ys = map (render ex_lib) ?zs"
    by (rule mp [OF conjunct2 [OF t]]) (intro conjI m s1 s2)
  from a 1 m 2 show ?thesis
    by (intro conjI)
qed

section \<open>Properties of the line passes\<close>

lemma length_t12_loop: "length (t12_loop m p ls) = length ls"
  by (induction ls arbitrary: p) (simp_all add: Let_def)

lemma re_word_not_brace: "re_word c \<Longrightarrow> c \<noteq> CHR ''}''"
  by (auto simp: re_word_def re_digit_def byte_def)

lemma fix_not_end: "singletonListFix l \<Longrightarrow> \<not> singletonListFixEnd l"
proof -
  assume a: "singletonListFix l"
  then have "takeWhile re_word (dropWhile re_space l) \<noteq> []"
    by (simp add: singletonListFix_def Let_def)
  then obtain c cs where r: "dropWhile re_space l = c # cs" and w: "re_word c"
    by (cases "dropWhile re_space l") (auto split: if_splits)
  then show ?thesis
    using re_word_not_brace [OF w] by (simp add: singletonListFixEnd_def)
qed

lemma t12_loop_nth:
  "i < length ls \<Longrightarrow>
   t12_loop m p ls ! i =
     (if singletonListFix (ls ! i) \<and>
         Join (prefix_after p (take i ls) @ [line_key (ls ! i)]) ''.'' \<notin> m
      then ReplaceAll (ls ! i) '' = {'' '' {''
      else ls ! i)"
proof (induction ls arbitrary: p i)
  case Nil
  then show ?case by simp
next
  case (Cons l ls)
  show ?case
  proof (cases i)
    case 0
    then show ?thesis
      using fix_not_end [of l] by auto
  next
    case (Suc j)
    with Cons.prems have j: "j < length ls" by simp
    show ?thesis
      using Suc Cons.IH [OF j] fix_not_end [of l] by auto
  qed
qed


lemma HasPrefix_append: "HasPrefix s p \<Longrightarrow> s = p @ drop (length p) s"
  by (induction s p rule: HasPrefix.induct) auto

lemma no_match_step:
  "CHR ''='' \<notin> set (c # cs) \<Longrightarrow> \<not> HasPrefix (c # cs @ '' = {'' @ rest) '' = {''"
  by (cases cs) auto

lemma ReplaceAll_first:
  "CHR ''='' \<notin> set xs \<Longrightarrow>
   ReplaceAll (xs @ '' = {'' @ rest) '' = {'' '' {'' = xs @ '' {'' @ ReplaceAll rest '' = {'' '' {''"
proof (induction xs)
  case Nil
  then show ?case by simp
next
  case (Cons c cs)
  from Cons.prems have nm: "\<not> HasPrefix (c # cs @ '' = {'' @ rest) '' = {''"
    by (rule no_match_step)
  from Cons.prems have "CHR ''='' \<notin> set cs" by simp
  then have ih: "ReplaceAll (cs @ '' = {'' @ rest) '' = {'' '' {'' = cs @ '' {'' @ ReplaceAll rest '' = {'' '' {''"
    by (rule Cons.IH)
  have "ReplaceAll (c # cs @ '' = {'' @ rest) '' = {'' '' {''
          = c # ReplaceAll (cs @ '' = {'' @ rest) '' = {'' '' {''"
    using nm by (simp del: HasPrefix.simps)
  with ih show ?case by simp
qed

lemma split_from_first:
  "CHR ''='' \<notin> set xs \<Longrightarrow>
   split_from '' = {'' cur (xs @ '' = {'' @ rest) = (cur @ xs) # split_from '' = {'' [] rest"
proof (induction xs arbitrary: cur)
  case Nil
  then show ?case by simp
next
  case (Cons c cs)
  from Cons.prems have nm: "\<not> HasPrefix (c # cs @ '' = {'' @ rest) '' = {''"
    by (rule no_match_step)
  from Cons.prems have "CHR ''='' \<notin> set cs" by simp
  then have ih: "split_from '' = {'' (cur @ [c]) (cs @ '' = {'' @ rest)
                   = ((cur @ [c]) @ cs) # split_from '' = {'' [] rest"
    by (rule Cons.IH)
  have "split_from '' = {'' cur (c # cs @ '' = {'' @ rest)
          = split_from '' = {'' (cur @ [c]) (cs @ '' = {'' @ rest)"
    using nm by (simp del: HasPrefix.simps)
  with ih show ?case by simp
qed

lemma line_key_first:
  "CHR ''='' \<notin> set xs \<Longrightarrow> line_key (xs @ '' = {'' @ rest) = Trim_spaces xs"
  using split_from_first [of xs "[]" rest] by (simp add: line_key_def Split_def)

lemma re_space_not_eq: "re_space c \<Longrightarrow> c \<noteq> CHR ''=''"
  by (auto simp: re_space_def byte_def)

lemma re_word_not_eq: "re_word c \<Longrightarrow> c \<noteq> CHR ''=''"
  by (auto simp: re_word_def re_digit_def byte_def)

lemma fix_shape:
  assumes "singletonListFix line"
  shows "\<exists>indent w rest. line = indent @ w @ '' = {'' @ rest \<and>
           list_all re_space indent \<and> w \<noteq> [] \<and> list_all re_word w"
proof -
  let ?r = "dropWhile re_space line"
  let ?indent = "takeWhile re_space line"
  let ?w = "takeWhile re_word ?r"
  let ?t = "dropWhile re_word ?r"
  from assms have w: "?w \<noteq> []" and t: "HasPrefix ?t '' = {''"
    by (simp_all add: singletonListFix_def Let_def)
  from HasPrefix_append [OF t] have "?r = ?w @ '' = {'' @ drop (length '' = {'') ?t"
    by (metis takeWhile_dropWhile_id)
  then have "line = ?indent @ ?w @ '' = {'' @ drop (length '' = {'') ?t"
    by (metis takeWhile_dropWhile_id)
  moreover have "list_all re_space ?indent"
    by (simp add: list_all_iff) (meson set_takeWhileD)
  moreover have "list_all re_word ?w"
    by (simp add: list_all_iff) (meson set_takeWhileD)
  ultimately show ?thesis using w by blast
qed

text \<open>
  The rule of the loop of \<^verbatim>\<open>terraform12Adjustments\<close>, with the stack as the loop
  keeps it (\<open>prefix_after\<close> of the lines before): a line that matches
  \<^verbatim>\<open><key> = {\<close> is left as it is when the dotted path made of that stack and its own
  key is in \<^verbatim>\<open>mapsObjects\<close>, and otherwise has its \<^verbatim>\<open> = {\<close> replaced by \<^verbatim>\<open> {\<close>.
\<close>

lemma t12_line_rule:
  assumes "i < length (Split formatted newline)"
    and "singletonListFix (Split formatted newline ! i)"
  shows "\<exists>out indent w rest.
           terraform12Adjustments formatted mapsObj = Join out newline \<and>
           length out = length (Split formatted newline) \<and>
           Split formatted newline ! i = indent @ w @ '' = {'' @ rest \<and>
           list_all re_space indent \<and> w \<noteq> [] \<and> list_all re_word w \<and>
           out ! i =
             (if Join (prefix_after [] (take i (Split formatted newline)) @ [Trim_spaces (indent @ w)]) ''.''
                   \<in> mapsObj
              then indent @ w @ '' = {'' @ rest
              else indent @ w @ '' {'' @ ReplaceAll rest '' = {'' '' {'')"
proof -
  let ?ls = "Split formatted newline"
  let ?out = "t12_loop mapsObj [] ?ls"
  from fix_shape [OF assms(2)] obtain indent w rest where
    sh: "?ls ! i = indent @ w @ '' = {'' @ rest" and
    ind: "list_all re_space indent" and w: "w \<noteq> []" and ww: "list_all re_word w"
    by blast
  from ind ww have ne: "CHR ''='' \<notin> set (indent @ w)"
    using re_space_not_eq re_word_not_eq by (auto simp: list_all_iff)
  have k: "line_key (?ls ! i) = Trim_spaces (indent @ w)"
    using line_key_first [OF ne, of rest] sh by simp
  have r: "ReplaceAll (?ls ! i) '' = {'' '' {'' = indent @ w @ '' {'' @ ReplaceAll rest '' = {'' '' {''"
    using ReplaceAll_first [OF ne, of rest] sh by simp
  have o: "?out ! i =
             (if Join (prefix_after [] (take i ?ls) @ [Trim_spaces (indent @ w)]) ''.'' \<in> mapsObj
              then indent @ w @ '' = {'' @ rest
              else indent @ w @ '' {'' @ ReplaceAll rest '' = {'' '' {'')"
    using t12_loop_nth [OF assms(1), of mapsObj "[]"] assms(2) k r sh by simp
  have "terraform12Adjustments formatted mapsObj = Join ?out newline"
    by (simp add: terraform12Adjustments_def)
  moreover have "length ?out = length ?ls"
    by (rule length_t12_loop)
  ultimately show ?thesis
    using sh ind w ww o by blast
qed

text \<open>The paths of the maps of every resource that is not a duplicate are in \<^verbatim>\<open>mapsObjects\<close>.\<close>

lemma mapsObjects_foldl:
  "keys_of st = set seen \<Longrightarrow>
   mapsObjects (foldl assemble_step st rs) =
     mapsObjects st \<union> (\<Union>res\<in>set (first_occurrences seen rs). map_paths (InstanceState_Attributes res))"
proof (induction rs arbitrary: st seen)
  case Nil
  then show ?case by simp
next
  case (Cons res rs)
  show ?case
  proof (cases "is_dup st res")
    case True
    then have k: "(InstanceInfo_Type res, ResourceName res) \<in> set seen"
      using Cons.prems by (simp add: is_dup_keys res_key_def)
    have "keys_of (assemble_step st res) = set seen"
      using True Cons.prems by (simp add: keys_of_step_dup)
    from Cons.IH [OF this] show ?thesis using k True by (simp add: step_dup)
  next
    case False
    then have k: "(InstanceInfo_Type res, ResourceName res) \<notin> set seen"
      using Cons.prems by (simp add: is_dup_keys res_key_def)
    have m: "mapsObjects (assemble_step st res) = mapsObjects st \<union> map_paths (InstanceState_Attributes res)"
      using False
      by (auto simp: is_dup_def lookup2_def assemble_step_def Let_def split: option.splits)
    have "keys_of (assemble_step st res) = set ((InstanceInfo_Type res, ResourceName res) # seen)"
      using False Cons.prems by (simp add: keys_of_step_new res_key_def)
    from Cons.IH [OF this] show ?thesis using k m by auto
  qed
qed

lemma map_shape_registered:
  assumes "res \<in> set (first_occurrences [] rs)"
    and "(k, x) \<in> set (InstanceState_Attributes res)"
    and "HasSuffix k ''.%''"
  shows "strip_index (TrimSuffix k ''.%'') \<in> mapsObjects (assemble rs)"
proof -
  have "keys_of empty_assembly = set []"
    by (simp add: keys_of_def empty_assembly_def lookup2_def)
  from mapsObjects_foldl [OF this, of rs]
  have "map_paths (InstanceState_Attributes res) \<subseteq> mapsObjects (assemble rs)"
    using assms(1) by (auto simp: assemble_def)
  moreover have "strip_index (TrimSuffix k ''.%'') \<in> map_paths (InstanceState_Attributes res)"
    using assms(2,3) by (force simp: map_paths_def)
  ultimately show ?thesis by blast
qed

lemma ex_lines:
  "Split ex_formatted newline =
     [''resource x {'', ''  tags = {'', ''    env = 1'', ''  }'', ''  blk = {'', ''  }'', ''}'']"
  by code_simp

lemma t12_line_rule_example:
  "4 < length (Split ex_formatted newline) \<and>
   singletonListFix (Split ex_formatted newline ! 4) \<and>
   map_paths ex_bag = {''tags'', ''blk.tags''} \<and>
   terraform12Adjustments ex_formatted (map_paths ex_bag) =
     ''resource x {\<newline>  tags = {\<newline>    env = 1\<newline>  }\<newline>  blk {\<newline>  }\<newline>}'' \<and>
   (\<exists>out indent w rest.
           terraform12Adjustments ex_formatted (map_paths ex_bag) = Join out newline \<and>
           length out = length (Split ex_formatted newline) \<and>
           Split ex_formatted newline ! 4 = indent @ w @ '' = {'' @ rest \<and>
           list_all re_space indent \<and> w \<noteq> [] \<and> list_all re_word w \<and>
           out ! 4 =
             (if Join (prefix_after [] (take 4 (Split ex_formatted newline)) @ [Trim_spaces (indent @ w)]) ''.''
                   \<in> map_paths ex_bag
              then indent @ w @ '' = {'' @ rest
              else indent @ w @ '' {'' @ ReplaceAll rest '' = {'' '' {''))"
proof -
  have h1: "4 < length (Split ex_formatted newline)"
    by (simp add: ex_lines)
  have h2: "singletonListFix (Split ex_formatted newline ! 4)"
    by code_simp
  have w2: "map_paths ex_bag = {''tags'', ''blk.tags''}"
    by code_simp
  have w1: "terraform12Adjustments ex_formatted (map_paths ex_bag) =
     ''resource x {\<newline>  tags = {\<newline>    env = 1\<newline>  }\<newline>  blk {\<newline>  }\<newline>}''"
    by code_simp
  note t = t12_line_rule [OF h1 h2, of "map_paths ex_bag"]
  from h1 h2 w2 w1 t show ?thesis
    by (intro conjI)
qed

text \<open>
  C6: a line \<^verbatim>\<open><key> = {\<close> whose path through the enclosing keys is in the set of
  map-shaped paths is to stay a map literal. The stack of the code is not the stack of
  the enclosing keys: an empty object printed on one line, \<^verbatim>\<open>aaaa = {}\<close>, is pushed
  and has no closing line to pop it. For the resource below, whose bag registers the
  path \<open>tags\<close>, the stack at the line of \<open>tags\<close> holds \<open>aaaa\<close>, the path looked up is
  \<open>aaaa.tags\<close>, and the map is written as a block, \<^verbatim>\<open>tags {\<close>.
\<close>

theorem map_literal_lost_after_empty_object:
  "map_paths [(''tags.%'', ''1''), (''tags.env'', ''prod'')] = {''tags''} \<and>
   Split ex_empty_object newline ! 2 = ''  tags = {'' \<and>
   prefix_after [] (take 2 (Split ex_empty_object newline)) = [''aaaa''] \<and>
   terraform12Adjustments ex_empty_object (map_paths [(''tags.%'', ''1''), (''tags.env'', ''prod'')])
     = ex_empty_object_out"
  by code_simp

text \<open>
  The same stack is popped by a closing brace inside the body of a heredoc: below, the
  brace of the JSON body pops \<open>blk\<close>, and the registered \<open>blk.tags\<close> is looked up as
  \<open>tags\<close> and written as a block.
\<close>

lemma map_literal_lost_after_heredoc_brace:
  "Split ex_heredoc_brace newline ! 7 = ''    tags = {'' \<and>
   prefix_after [] (take 7 (Split ex_heredoc_brace newline)) = [] \<and>
   terraform12Adjustments ex_heredoc_brace {''blk.tags''} = ex_heredoc_brace_out"
  by code_simp

lemma t13_loop_first:
  "list_all (\<lambda>l. \<not> requiredProvidersRe l) pre \<Longrightarrow> requiredProvidersRe line \<Longrightarrow>
   t13_loop acc (pre @ line # rest) = restructure (acc @ pre) line rest"
  by (induction pre arbitrary: acc) simp_all

lemma restructure_unclosed:
  "list_all (\<lambda>l. \<not> singletonListFixEnd l) rest \<Longrightarrow>
   restructure pre line rest = Inl (Panic ''index out of range'')"
proof -
  assume "list_all (\<lambda>l. \<not> singletonListFixEnd l) rest"
  then have "dropWhile (\<lambda>l. \<not> singletonListFixEnd l) rest = []"
    by (simp add: list_all_iff)
  then show ?thesis
    by (simp add: restructure_def Let_def)
qed

lemma t12_loop_lines:
  "i < length ls \<Longrightarrow>
   t12_loop m p ls ! i = ls ! i \<or> t12_loop m p ls ! i = ReplaceAll (ls ! i) '' = {'' '' {''"
  using t12_loop_nth [of i ls m p] by (simp split: if_splits)

text \<open>
  C2 (as amended): when the first line that matches \<^verbatim>\<open>required_providers "<name>" {\<close>
  has no closing-brace line after it, \<^verbatim>\<open>terraform13Adjustments\<close> neither loops nor
  returns a text: its scan for the closing brace reads past the last line and the call
  stops with an index-out-of-range panic (there is no rewrite error value).
  \<^verbatim>\<open>terraform12Adjustments\<close> has no closing marker to find: it always returns, with as
  many lines as it was given, each one as it was or with \<^verbatim>\<open> = {\<close> replaced.
\<close>

theorem unclosed_required_providers:
  assumes "Split formatted newline = pre @ line # rest"
    and "list_all (\<lambda>l. \<not> requiredProvidersRe l) pre"
    and "requiredProvidersRe line"
    and "list_all (\<lambda>l. \<not> singletonListFixEnd l) rest"
  shows "terraform13Adjustments formatted = Inl (Panic ''index out of range'') \<and>
         (\<exists>out. terraform12Adjustments formatted mapsObj = Join out newline \<and>
                length out = length (Split formatted newline) \<and>
                (\<forall>i<length out.
                   out ! i = Split formatted newline ! i \<or>
                   out ! i = ReplaceAll (Split formatted newline ! i) '' = {'' '' {''))"
proof -
  have "t13_loop [] (Split formatted newline) = Inl (Panic ''index out of range'')"
    using t13_loop_first [OF assms(2,3), of "[]" rest] restructure_unclosed [OF assms(4), of pre line]
    by (simp add: assms(1))
  then have a: "terraform13Adjustments formatted = Inl (Panic ''index out of range'')"
    by (simp add: terraform13Adjustments_def)
  let ?out = "t12_loop mapsObj [] (Split formatted newline)"
  have b: "terraform12Adjustments formatted mapsObj = Join ?out newline"
    by (simp add: terraform12Adjustments_def)
  have c: "length ?out = length (Split formatted newline)"
    by (rule length_t12_loop)
  have d: "\<forall>i<length ?out.
             ?out ! i = Split formatted newline ! i \<or>
             ?out ! i = ReplaceAll (Split formatted newline ! i) '' = {'' '' {''"
    using t12_loop_lines c by simp
  from a b c d show ?thesis by blast
qed

lemma ex_unclosed_lines:
  "Split ex_unclosed newline =
     [''terraform {''] @ (''  required_providers '' @ [dquote] @ ''google'' @ [dquote] @ '' {'')
        # [''    version = 1'']"
  by code_simp

theorem unclosed_required_providers_witness:
  "terraform13Adjustments ex_unclosed = Inl (Panic ''index out of range'') \<and>
   (\<exists>out. terraform12Adjustments ex_unclosed {} = Join out newline \<and>
          length out = length (Split ex_unclosed newline))"
proof -
  have 1: "list_all (\<lambda>l. \<not> requiredProvidersRe l) [''terraform {'']"
    by code_simp
  have 2: "requiredProvidersRe (''  required_providers '' @ [dquote] @ ''google'' @ [dquote] @ '' {'')"
    by code_simp
  have 3: "list_all (\<lambda>l. \<not> singletonListFixEnd l) [''    version = 1'']"
    by code_simp
  from unclosed_required_providers [OF ex_unclosed_lines 1 2 3, of "{}"] show ?thesis
    by blast
qed

text \<open>
  The claim as first stated has both passes raise a rewrite error on such a text. On the
  one-line text \<^verbatim>\<open>required_providers "x" {\<close> the first pass returns the text as it is,
  and the second stops with a panic, not with an error that it returns.
\<close>

theorem no_rewrite_error_counterexample:
  "terraform12Adjustments (''required_providers '' @ [dquote] @ ''x'' @ [dquote] @ '' {'') {}
     = ''required_providers '' @ [dquote] @ ''x'' @ [dquote] @ '' {'' \<and>
   terraform13Adjustments (''required_providers '' @ [dquote] @ ''x'' @ [dquote] @ '' {'')
     = Inl (Panic ''index out of range'')"
  by code_simp

section \<open>Properties of the sanitizer\<close>

lemma HasPrefix_self_append: "HasPrefix (p @ x) p"
  by (induction p) simp_all

lemma TrimPrefix_append: "TrimPrefix (p @ x) p = x"
  by (simp add: TrimPrefix_def HasPrefix_self_append)

lemma HasPrefix_dot: "HasPrefix s ''.'' \<longleftrightarrow> (\<exists>t. s = CHR ''.'' # t)"
  by (cases s) auto

lemma Contains_dot: "Contains s ''.'' \<longleftrightarrow> CHR ''.'' \<in> set s"
  by (induction s) (auto simp: HasPrefix_dot)

lemma is_child_hint_append:
  "CHR ''.'' \<notin> set key \<Longrightarrow> is_child_hint lp (lp @ ''.'' @ key)"
  by (simp add: is_child_hint_def HasPrefix_self_append TrimPrefix_append Contains_dot)

lemma first_child_hint_find:
  "lp \<noteq> [] \<Longrightarrow>
   first_child_hint lp hs =
     (case find (is_child_hint lp) hs of
        None \<Rightarrow> []
      | Some h \<Rightarrow> TrimPrefix (TrimPrefix h lp) ''.'')"
  by (induction hs) (auto simp: is_child_hint_def)

lemma find_first:
  "list_all (\<lambda>h. \<not> P h) before \<Longrightarrow> P x \<Longrightarrow> find P (before @ x # after) = Some x"
  by (induction before) auto

lemma unorderedKey_hint:
  assumes "currentPath = ''resource'' # ty # nm # rest"
    and "lookup2 (hints v) ty nm = Some (before @ (buildLogicalPath currentPath @ ''.'' @ key) # after)"
    and "buildLogicalPath currentPath \<noteq> []"
    and "CHR ''.'' \<notin> set key"
    and "list_all (\<lambda>h. \<not> is_child_hint (buildLogicalPath currentPath) h) before"
  shows "unorderedKey v currentPath = key"
proof -
  let ?lp = "buildLogicalPath currentPath"
  have f: "find (is_child_hint ?lp) (before @ (?lp @ ''.'' @ key) # after) = Some (?lp @ ''.'' @ key)"
    using assms(5) is_child_hint_append [OF assms(4)] by (rule find_first)
  have "first_child_hint ?lp (before @ (?lp @ ''.'' @ key) # after) = key"
    by (simp only: first_child_hint_find [OF assms(3)] f option.case TrimPrefix_append)
  moreover have "length currentPath \<ge> 3" "currentPath ! 0 = ''resource''"
    "currentPath ! 1 = ty" "currentPath ! 2 = nm"
    by (simp_all add: assms(1))
  ultimately show ?thesis
    using assms(2) by (simp add: unorderedKey_def)
qed

lemma visit_items_all2:
  "visit_items lib v p items = Inr items' \<Longrightarrow>
   list_all2 (\<lambda>it it'. visitObjectItem lib v p it = Inr it') items items'"
  by (induction items arbitrary: items') (auto split: sum.splits)

lemma sortHclItems_props:
  "mset (sortHclItems lib xs) = mset xs \<and>
   sorted (map (\<lambda>it. render lib (ItemNode it)) (sortHclItems lib xs))"
  by (simp add: sortHclItems_def)

text \<open>
  What the object-list case does for the first hint that fits: with sorting enabled, in
  a container below a resource whose logical path is not empty, let the first hint of
  the resource that is the logical path, a dot and a text without a dot name the key
  \<open>key\<close>. Then the children whose key is \<open>key\<close> come first in their order, and the
  others follow, sorted by their rendered text.
\<close>

lemma first_hint_items_first:
  assumes "sort_flag v"
    and "currentPath = ''resource'' # ty # nm # rest"
    and "lookup2 (hints v) ty nm = Some (before @ (buildLogicalPath currentPath @ ''.'' @ key) # after)"
    and "buildLogicalPath currentPath \<noteq> []"
    and "key \<noteq> []"
    and "CHR ''.'' \<notin> set key"
    and "list_all (\<lambda>h. \<not> is_child_hint (buildLogicalPath currentPath) h) before"
    and "visit_items lib v currentPath items = Inr items'"
    and "list_all (\<lambda>it. Keys it \<noteq> []) items'"
  shows "\<exists>sorted_rest.
           visit lib v currentPath (ObjectList items)
             = Inr (ObjectList (filter (\<lambda>it. item_key lib it = key) items' @ sorted_rest)) \<and>
           mset sorted_rest = mset (filter (\<lambda>it. item_key lib it \<noteq> key) items') \<and>
           sorted (map (\<lambda>it. render lib (ItemNode it)) sorted_rest) \<and>
           list_all2 (\<lambda>it it'. visitObjectItem lib v currentPath it = Inr it') items items'"
proof -
  let ?rest = "sortHclItems lib (filter (\<lambda>it. item_key lib it \<noteq> key) items')"
  have k: "unorderedKey v currentPath = key"
    using assms(2,3,4,6,7) by (rule unorderedKey_hint)
  have "order_items lib v currentPath items'
          = Inr (filter (\<lambda>it. item_key lib it = key) items' @ ?rest)"
    using assms(1,5,9) by (simp add: order_items_def k)
  then have 1: "visit lib v currentPath (ObjectList items)
                  = Inr (ObjectList (filter (\<lambda>it. item_key lib it = key) items' @ ?rest))"
    using assms(8) by simp
  have 2: "mset ?rest = mset (filter (\<lambda>it. item_key lib it \<noteq> key) items')"
    and 3: "sorted (map (\<lambda>it. render lib (ItemNode it)) ?rest)"
    using sortHclItems_props by blast+
  have 4: "list_all2 (\<lambda>it it'. visitObjectItem lib v currentPath it = Inr it') items items'"
    using assms(8) by (rule visit_items_all2)
  from 1 2 3 4 show ?thesis by blast
qed

lemma ex_items_visited:
  "visit_items ex_lib ex_sanitizer ex_path ex_block_a
     = Inr [vis_item ''c'' ''2'', vis_item ''c'' ''1'', vis_item ''b'' ''0'']"
  by code_simp

lemma ex_lp: "buildLogicalPath ex_path = ''a''"
  by code_simp

lemma first_hint_items_first_example:
  "visit_items ex_lib ex_sanitizer ex_path ex_block_a
     = Inr [vis_item ''c'' ''2'', vis_item ''c'' ''1'', vis_item ''b'' ''0''] \<and>
   filter (\<lambda>it. item_key ex_lib it = ''b'') [vis_item ''c'' ''2'', vis_item ''c'' ''1'', vis_item ''b'' ''0'']
     = [vis_item ''b'' ''0''] \<and>
   (\<exists>sorted_rest.
      visit ex_lib ex_sanitizer ex_path (ObjectList ex_block_a)
        = Inr (ObjectList ([vis_item ''b'' ''0''] @ sorted_rest)) \<and>
      mset sorted_rest = mset [vis_item ''c'' ''2'', vis_item ''c'' ''1''] \<and>
      sorted (map (\<lambda>it. render ex_lib (ItemNode it)) sorted_rest))"
proof -
  let ?items' = "[vis_item ''c'' ''2'', vis_item ''c'' ''1'', vis_item ''b'' ''0'']"
  have 1: "sort_flag ex_sanitizer"
    by (simp add: ex_sanitizer_def)
  have 2: "ex_path = ''resource'' # ''t'' # ''n'' # [''a'']"
    by (simp add: ex_path_def)
  have 3: "lookup2 (hints ex_sanitizer) ''t'' ''n''
             = Some ([] @ (buildLogicalPath ex_path @ ''.'' @ ''b'') # [''a.c''])"
    by (simp add: ex_lp ex_sanitizer_def ex_hints_def lookup2_def)
  have 4: "buildLogicalPath ex_path \<noteq> []"
    by (simp add: ex_lp)
  have 5: "''b'' \<noteq> []"
    by simp
  have 6: "CHR ''.'' \<notin> set ''b''"
    by simp
  have 7: "list_all (\<lambda>h. \<not> is_child_hint (buildLogicalPath ex_path) h) []"
    by simp
  have 9: "list_all (\<lambda>it. Keys it \<noteq> []) ?items'"
    by (simp add: vis_item_def)
  have fb: "filter (\<lambda>it. item_key ex_lib it = ''b'') ?items' = [vis_item ''b'' ''0'']"
    by code_simp
  have fc: "filter (\<lambda>it. item_key ex_lib it \<noteq> ''b'') ?items' = [vis_item ''c'' ''2'', vis_item ''c'' ''1'']"
    by code_simp
  from first_hint_items_first [OF 1 2 3 4 5 6 7 ex_items_visited 9]
  obtain sorted_rest where
    a: "visit ex_lib ex_sanitizer ex_path (ObjectList ex_block_a)
          = Inr (ObjectList (filter (\<lambda>it. item_key ex_lib it = ''b'') ?items' @ sorted_rest))" and
    b: "mset sorted_rest = mset (filter (\<lambda>it. item_key ex_lib it \<noteq> ''b'') ?items')" and
    c: "sorted (map (\<lambda>it. render ex_lib (ItemNode it)) sorted_rest)"
    by (elim exE conjE)
  from a have a': "visit ex_lib ex_sanitizer ex_path (ObjectList ex_block_a)
          = Inr (ObjectList ([vis_item ''b'' ''0''] @ sorted_rest))"
    by (simp only: fb)
  from b have b': "mset sorted_rest = mset [vis_item ''c'' ''2'', vis_item ''c'' ''1'']"
    by (simp only: fc)
  from a' b' c have "\<exists>sorted_rest.
      visit ex_lib ex_sanitizer ex_path (ObjectList ex_block_a)
        = Inr (ObjectList ([vis_item ''b'' ''0''] @ sorted_rest)) \<and>
      mset sorted_rest = mset [vis_item ''c'' ''2'', vis_item ''c'' ''1''] \<and>
      sorted (map (\<lambda>it. render ex_lib (ItemNode it)) sorted_rest)"
    by blast
  with ex_items_visited fb show ?thesis
    by (intro conjI)
qed

text \<open>
  C4: the children of a container that a registered hint names are to keep their
  relative order, first in the container. The object-list case keeps one key for a
  container, that of the first hint that fits, and leaves its loop there. In the
  example the block \<open>a\<close> holds the items \<open>c = 2\<close>, \<open>c = 1\<close>, \<open>b = 0\<close>. With the hint
  \<open>a.c\<close> alone the items \<open>c\<close> stay first and in their order; with the hints \<open>a.b\<close> and
  \<open>a.c\<close> they are sorted with the rest and change their order. The list case, which
  looks a path up among all the hints, keeps the order of a list \<open>c\<close> of values under
  the same two hints.
\<close>

theorem second_hint_items_sorted:
  "lookup2 (hints ex_sanitizer) ''t'' ''n'' = Some [''a.b'', ''a.c''] \<and>
   visit ex_lib \<lparr>sort_flag = True, hints = [(''t'', [(''n'', [''a.c''])])]\<rparr> [] ex_tree
     = Inr (ex_visited [vis_item ''c'' ''2'', vis_item ''c'' ''1'', vis_item ''b'' ''0'']) \<and>
   visit ex_lib ex_sanitizer [] ex_tree
     = Inr (ex_visited [vis_item ''b'' ''0'', vis_item ''c'' ''1'', vis_item ''c'' ''2'']) \<and>
   visit ex_lib ex_sanitizer [] ex_tree_list
     = Inr (ex_visited_list [str_lit ''2'', str_lit ''1''])"
  by code_simp

text \<open>
  A hint for items directly in the body of a resource, such as the one-segment hint of
  the App Engine generator, never fits in the object-list case, whose logical path is
  empty there: the items \<open>c\<close> are sorted.
\<close>

lemma top_level_hint_items_sorted:
  "visit ex_lib \<lparr>sort_flag = True, hints = [(''t'', [(''n'', [''c''])])]\<rparr> [] ex_tree_top
     = Inr (ex_visited_top [vis_item ''b'' ''0'', vis_item ''c'' ''1'', vis_item ''c'' ''2''])"
  by code_simp

text \<open>
  C7: a literal whose text begins with the quoted heredoc marker is unwrapped, and a JSON
  body between its first and last line is written again with an indentation of two
  spaces. The code fails to do so for a text of one line (a string that begins with
  \<^verbatim>\<open><<\<close> and has no line feed): the slice of the lines between the first and the last
  is out of bounds and the visit panics.
\<close>

theorem heredoc_one_line_panics:
  "handleHeredoc lib (Token 9 ([dquote] @ ''<<EOF'' @ [dquote])) = Inl (Panic ''slice bounds out of range'') \<and>
   visit lib v currentPath (LiteralType (Token 9 ([dquote] @ ''<<EOF'' @ [dquote])))
     = Inl (Panic ''slice bounds out of range'')"
  by (simp add: handleHeredoc_def dquote_def backslash_def newline_def Split_def Let_def)

text \<open>The example of the specification, a heredoc of three lines with a JSON body.\<close>

lemma heredoc_example:
  "handleHeredoc ex_lib
     (Token 9 ([dquote] @ ''<<EOF'' @ [backslash] @ ''n{'' @ [backslash, dquote] @ ''a''
                @ [backslash, dquote] @ '':1}'' @ [backslash] @ ''nEOF'' @ [dquote]))
   = Inr (Token 10 (''<<EOF\<newline>{\<newline>  '' @ [dquote] @ ''a'' @ [dquote] @ '': 1\<newline>}\<newline>EOF''))"
  by code_simp

end
